theory Spec2Isabelle
  imports Main "HOL-Library.Multiset"
begin

section \<open>Strings\<close>

text \<open>
  A JavaScript string is a sequence of UTF-16 code units. A code unit is modelled as a
  natural number, so that the white space class of the regular expressions (which holds
  code units above 255) is the real one. \<open>str\<close> turns an ASCII literal into code units.
\<close>

type_synonym jsstring = "nat list"

definition str :: "string \<Rightarrow> jsstring" where
  "str s = map of_char s"

text \<open>\<open>String.prototype.startsWith\<close>.\<close>

definition startsWith :: "jsstring \<Rightarrow> jsstring \<Rightarrow> bool" where
  "startsWith s p = (take (length p) s = p)"

text \<open>
  \<open>occurs p s\<close>: the string \<open>p\<close> stands somewhere in \<open>s\<close> (\<open>s.indexOf(p) >= 0\<close>).
\<close>

fun occurs :: "jsstring \<Rightarrow> jsstring \<Rightarrow> bool" where
  "occurs p [] = (p = [])"
| "occurs p (x # xs) = (if startsWith (x # xs) p then True else occurs p xs)"

text \<open>
  \<open>s.replace(p, "")\<close> with a string pattern \<open>p\<close>: the first occurrence of \<open>p\<close> in \<open>s\<close>
  is removed, and \<open>s\<close> is returned as it is when \<open>p\<close> does not occur.
\<close>

fun replace_first :: "jsstring \<Rightarrow> jsstring \<Rightarrow> jsstring" where
  "replace_first [] p = []"
| "replace_first (x # xs) p =
     (if startsWith (x # xs) p then drop (length p) (x # xs) else x # replace_first xs p)"

section \<open>Regular expressions\<close>

text \<open>
  The four patterns of the source are built from character classes, concatenation,
  alternation, a greedy star over a character class, one capturing group, a negative
  lookahead and the end-of-input assertion \<open>$\<close> (no pattern has the \<open>m\<close> flag).
  \<open>ms r (c, s)\<close> lists every way \<open>r\<close> can match at the head of \<open>s\<close>, as the pair of the
  capture and the input that is left, in the order in which a backtracking matcher tries
  them: the head of the list is what the matcher returns. The capture starts as the empty
  string; the group stands on every path of each pattern that has one, so that value is
  never seen in a match. \<open>is_space\<close> is the class \<open>\s\<close>: the white space and line
  terminator code units of ECMAScript.
\<close>

definition is_space :: "nat \<Rightarrow> bool" where
  "is_space c = (c \<in> {9, 10, 11, 12, 13, 32, 160, 5760, 8232, 8233, 8239, 8287, 12288, 65279}
     \<or> (8192 \<le> c \<and> c \<le> 8202))"

definition is_alpha :: "nat \<Rightarrow> bool" where
  "is_alpha c = ((97 \<le> c \<and> c \<le> 122) \<or> (65 \<le> c \<and> c \<le> 90))"

definition is_base64 :: "nat \<Rightarrow> bool" where
  "is_base64 c = (is_alpha c \<or> (48 \<le> c \<and> c \<le> 57) \<or> c = 43 \<or> c = 47)"

datatype re = Eps | Atom "nat \<Rightarrow> bool" | Seq re re | Alt re re | Star "nat \<Rightarrow> bool"
  | Group re | NegLook re | Eol

type_synonym mstate = "jsstring \<times> jsstring"

fun star_ms :: "(nat \<Rightarrow> bool) \<Rightarrow> jsstring \<Rightarrow> jsstring list" where
  "star_ms p [] = [[]]"
| "star_ms p (x # xs) = (if p x then star_ms p xs @ [x # xs] else [x # xs])"

fun ms :: "re \<Rightarrow> mstate \<Rightarrow> mstate list" where
  "ms Eps st = [st]"
| "ms (Atom p) (c, s) = (case s of [] \<Rightarrow> [] | x # xs \<Rightarrow> if p x then [(c, xs)] else [])"
| "ms (Seq a b) st = concat (map (ms b) (ms a st))"
| "ms (Alt a b) st = ms a st @ ms b st"
| "ms (Star p) (c, s) = map (Pair c) (star_ms p s)"
| "ms (Group r) (c, s) = map (\<lambda>(c', s'). (take (length s - length s') s, s')) (ms r (c, s))"
| "ms (NegLook r) st = (if ms r st = [] then [st] else [])"
| "ms Eol (c, s) = (if s = [] then [(c, s)] else [])"

fun lit :: "jsstring \<Rightarrow> re" where
  "lit [] = Eps"
| "lit (c # cs) = Seq (Atom (\<lambda>x. x = c)) (lit cs)"

definition plus :: "(nat \<Rightarrow> bool) \<Rightarrow> re" where
  "plus p = Seq (Atom p) (Star p)"

definition opt :: "re \<Rightarrow> re" where
  "opt r = Alt r Eps"

text \<open>
  The result of \<open>RegExp.prototype.exec\<close> and of \<open>String.prototype.match\<close> for a pattern
  without the \<open>g\<close> flag: the leftmost index at which the pattern matches, the matched text
  (\<open>match[0]\<close>) and the capture (\<open>match[1]\<close>).
\<close>

record rmatch =
  index :: nat
  whole :: jsstring
  group1 :: jsstring

definition match_at :: "re \<Rightarrow> nat \<Rightarrow> jsstring \<Rightarrow> rmatch option" where
  "match_at r i s =
     (case ms r ([], s) of
        [] \<Rightarrow> None
      | (c, rest) # _ \<Rightarrow>
          Some \<lparr>index = i, whole = take (length s - length rest) s, group1 = c\<rparr>)"

fun exec_from :: "re \<Rightarrow> nat \<Rightarrow> jsstring \<Rightarrow> rmatch option" where
  "exec_from r i [] = match_at r i []"
| "exec_from r i (x # xs) =
     (case match_at r i (x # xs) of
        Some m \<Rightarrow> Some m
      | None \<Rightarrow> exec_from r (Suc i) xs)"

definition exec :: "re \<Rightarrow> jsstring \<Rightarrow> rmatch option" where
  "exec r s = exec_from r 0 s"

text \<open>\<open>test\<close> for a pattern that starts with \<open>^\<close>: it can match at index 0 only.\<close>

definition test_anchored :: "re \<Rightarrow> jsstring \<Rightarrow> bool" where
  "test_anchored r s = (ms r ([], s) \<noteq> [])"

subsection \<open>The patterns of the source\<close>

definition FILE_SCHEME :: jsstring where
  "FILE_SCHEME = str ''file:''"

definition marker :: jsstring where
  "marker = str ''sourceMappingURL''"

text \<open>
  \<open>baseRegex\<close> is the source's string with the lookahead as a parameter:
  \<open>\s*[@#]\s*sourceMappingURL\s*=\s*([^\s]*)\<close> followed by \<open>look\<close>.
\<close>

definition baseWith :: "re \<Rightarrow> re" where
  "baseWith look =
     Seq (Star is_space) (Seq (Atom (\<lambda>c. c = 64 \<or> c = 35)) (Seq (Star is_space)
     (Seq (lit marker) (Seq (Star is_space) (Seq (Atom (\<lambda>c. c = 61)) (Seq (Star is_space)
     (Seq (Group (Star (\<lambda>c. \<not> is_space c))) look)))))))"

text \<open>\<open>(?![\S\s]*sourceMappingURL)\<close>\<close>

definition lookahead :: re where
  "lookahead = NegLook (Seq (Star (\<lambda>c. True)) (lit marker))"

definition baseRegex :: re where
  "baseRegex = baseWith lookahead"

text \<open>\<open>new RegExp("/\\*" + baseRegex + "\\s*\\*/")\<close>\<close>

definition blockWith :: "re \<Rightarrow> re" where
  "blockWith base = Seq (lit (str ''/*'')) (Seq base (Seq (Star is_space) (lit (str ''*/''))))"

definition regex1 :: re where
  "regex1 = blockWith baseRegex"

text \<open>\<open>new RegExp("//" + baseRegex + "(?:$|\n|\r\n?)")\<close>\<close>

definition lineWith :: "re \<Rightarrow> re" where
  "lineWith base = Seq (lit (str ''//'')) (Seq base
     (Alt Eol (Alt (lit [10]) (Seq (lit [13]) (opt (lit [10]))))))"

definition regex2 :: re where
  "regex2 = lineWith baseRegex"

text \<open>\<open>/data:[^;\n]+(?:;charset=[^;\n]+)?;base64,([a-zA-Z0-9+/]+={0,2})/\<close>\<close>

definition regexDataUrl :: re where
  "regexDataUrl =
     Seq (lit (str ''data:'')) (Seq (plus (\<lambda>c. c \<noteq> 59 \<and> c \<noteq> 10))
     (Seq (opt (Seq (lit (str '';charset='')) (plus (\<lambda>c. c \<noteq> 59 \<and> c \<noteq> 10))))
     (Seq (lit (str '';base64,''))
          (Group (Seq (plus is_base64) (opt (Seq (lit [61]) (opt (lit [61])))))))))"

text \<open>\<open>/^[a-zA-Z]{2,}:/\<close>, used with \<open>test_anchored\<close>.\<close>

definition regexUrl :: re where
  "regexUrl = Seq (Atom is_alpha) (Seq (Atom is_alpha) (Seq (Star is_alpha) (lit [58])))"

text \<open>
  The directive patterns with the lookahead taken out: what a directive comment is, apart
  from the rule that picks one among several.
\<close>

definition regex1_plain :: re where
  "regex1_plain = blockWith (baseWith Eps)"

definition regex2_plain :: re where
  "regex2_plain = lineWith (baseWith Eps)"

text \<open>The suffixes of a text: one for each index at which a match can start.\<close>

fun tails :: "'a list \<Rightarrow> 'a list list" where
  "tails [] = [[]]"
| "tails (x # xs) = (x # xs) # tails xs"

section \<open>The data model\<close>

text \<open>
  What indexing \<open>sourcesContent\<close> gives: \<open>undefined\<close> beyond its end, else \<open>null\<close>, a
  string, or another JSON value (\<open>Other\<close>, with its JSON text), which the code treats as
  it treats a string.
\<close>

datatype content_value = Undefined | Null | Text jsstring | Other jsstring

definition at_index :: "content_value list \<Rightarrow> nat \<Rightarrow> content_value" where
  "at_index xs i = (if i < length xs then xs ! i else Undefined)"

text \<open>
  \<open>RawSourceMap\<close> of the \<open>source-map\<close> package: a parsed JSON value that has an array
  under \<open>sources\<close>. An optional field that is absent (or, for \<open>sourceRoot\<close> and
  \<open>sourcesContent\<close>, falsy) is \<open>None\<close>. The code only concatenates the entries of
  \<open>sources\<close> and \<open>sourceRoot\<close> to strings and only indexes \<open>sourcesContent\<close>, so each is
  given by what that makes of it: a string, and a list of values. (With
  \<open>keepRelativeSources\<close> an entry of \<open>sources\<close> that is not a string is handed on as it is;
  the model shows its string.)
\<close>

record RawSourceMap =
  version :: nat
  file' :: "jsstring option"
  sourceRoot :: "jsstring option"
  sources :: "jsstring list"
  sourcesContent :: "content_value list option"
  mappings :: jsstring

text \<open>
  What \<open>JSON.parse\<close> returns. The cast \<open>as RawSourceMap\<close> checks nothing: the value is a
  source map as above, or any other JSON value (\<open>null\<close>, a number, an object without an
  array under \<open>sources\<close>), on which \<open>sourceMap.sourceRoot\<close> or \<open>sourceMap.sources.map\<close>
  throws a \<open>TypeError\<close>.
\<close>

datatype parsed = Source_map RawSourceMap | Not_a_source_map

record Options =
  keepRelativeSources :: "bool option"

record SourceAndContent =
  source :: jsstring
  content :: content_value

definition DEFAULT_OPTIONS :: Options where
  "DEFAULT_OPTIONS = \<lparr>keepRelativeSources = Some False\<rparr>"

text \<open>\<open>Object.assign({}, DEFAULT_OPTIONS, getOptions(this))\<close>\<close>

definition assign_options :: "Options \<Rightarrow> Options \<Rightarrow> Options" where
  "assign_options d given =
     \<lparr>keepRelativeSources =
        (case keepRelativeSources given of None \<Rightarrow> keepRelativeSources d | Some b \<Rightarrow> Some b)\<rparr>"

section \<open>Errors and the host\<close>

text \<open>
  \<open>hosterr\<close> is an exception raised by a function of the platform (\<open>fs.readFile\<close>,
  \<open>JSON.parse\<close>, \<open>fileURLToPath\<close>), with its message. \<open>err\<close> is what the loader throws
  and what it hands to \<open>emitWarning\<close>: one constructor for each \<open>new Error\<close> of the
  source, named after its message, \<open>Host\<close> for a platform exception passed on as it is,
  and \<open>TypeError_no_sources\<close> for the \<open>TypeError\<close> of lines 91 and 92 on a parsed value
  that is not a source map.
\<close>

datatype hosterr = HostErr jsstring

datatype err =
    URL_scheme_not_supported jsstring
  | File_URL_scheme_support_requires_node_10 jsstring
  | Cannot_parse_inline_SourceMap jsstring hosterr
  | Cannot_parse_SourceMap_from jsstring hosterr
  | Cannot_find_source_file jsstring err
  | Cannot_open_source_file jsstring hosterr
  | Host hosterr
  | TypeError_no_sources

text \<open>
  The functions of the platform that the source calls are parameters of the model:
  \<open>fs.readFile(p, "utf-8")\<close>, \<open>path.resolve\<close> with two arguments, \<open>path.dirname\<close>,
  \<open>fileURLToPath\<close> (absent before node 10), \<open>JSON.parse\<close>, and
  \<open>Buffer.from(b, "base64").toString()\<close>, which never throws.
  The reads of the source files run at the same time; \<open>finish_time i\<close> is when the read
  for the source at index \<open>i\<close> completes, so that every order of completion is the order
  of some host.
\<close>

record env =
  readFile :: "jsstring \<Rightarrow> hosterr + jsstring"
  path_resolve :: "jsstring \<Rightarrow> jsstring \<Rightarrow> jsstring"
  path_dirname :: "jsstring \<Rightarrow> jsstring"
  fileURLToPath :: "(jsstring \<Rightarrow> hosterr + jsstring) option"
  JSON_parse :: "jsstring \<Rightarrow> hosterr + parsed"
  base64_toString :: "jsstring \<Rightarrow> jsstring"
  finish_time :: "nat \<Rightarrow> nat"

text \<open>
  What one invocation does to the outside: the warnings emitted, the dependencies added,
  whether \<open>cacheable\<close> was called, and every file read that was tried, with its outcome.
\<close>

record world =
  warnings :: "err list"
  dependencies :: "jsstring list"
  reads :: "(jsstring \<times> bool) list"
  cacheable :: bool

definition fresh :: world where
  "fresh = \<lparr>warnings = [], dependencies = [], reads = [], cacheable = False\<rparr>"

definition emitWarning :: "err \<Rightarrow> world \<Rightarrow> world" where
  "emitWarning e w = w\<lparr>warnings := warnings w @ [e]\<rparr>"

definition addDependency :: "jsstring \<Rightarrow> world \<Rightarrow> world" where
  "addDependency p w = w\<lparr>dependencies := dependencies w @ [p]\<rparr>"

definition fs_readFile :: "env \<Rightarrow> jsstring \<Rightarrow> world \<Rightarrow> (hosterr + jsstring) \<times> world" where
  "fs_readFile h p w =
     (case readFile h p of
        Inl e \<Rightarrow> (Inl e, w\<lparr>reads := reads w @ [(p, False)]\<rparr>)
      | Inr t \<Rightarrow> (Inr t, w\<lparr>reads := reads w @ [(p, True)]\<rparr>))"

section \<open>The loader\<close>

definition resolveAbsolutePath :: "env \<Rightarrow> jsstring \<Rightarrow> jsstring \<Rightarrow> err + jsstring" where
  "resolveAbsolutePath h ctx url =
     (if test_anchored regexUrl url \<and> \<not> startsWith url FILE_SCHEME
      then Inl (URL_scheme_not_supported url)
      else if startsWith url FILE_SCHEME
      then (case fileURLToPath h of
              None \<Rightarrow> Inl (File_URL_scheme_support_requires_node_10 url)
            | Some f \<Rightarrow> (case f url of
                          Inl e \<Rightarrow> Inl (Host e)
                        | Inr filepath \<Rightarrow> Inr (path_resolve h ctx filepath)))
      else Inr (path_resolve h ctx url))"

text \<open>\<open>ctx\<close> is \<open>this.context\<close>.\<close>

definition readSourceMap ::
  "env \<Rightarrow> jsstring \<Rightarrow> jsstring \<Rightarrow> world \<Rightarrow> (err + parsed \<times> jsstring) \<times> world" where
  "readSourceMap h ctx url w =
     (case exec regexDataUrl url of
        Some dataUrlMatch \<Rightarrow>
          (let base64SourceMap = group1 dataUrlMatch in
           case JSON_parse h (base64_toString h base64SourceMap) of
             Inr sourceMap \<Rightarrow> (Inr (sourceMap, ctx), w)
           | Inl ex \<Rightarrow> (Inl (Cannot_parse_inline_SourceMap (take 50 base64SourceMap) ex), w))
      | None \<Rightarrow>
          (case resolveAbsolutePath h ctx url of
             Inl e \<Rightarrow> (Inl e, w)
           | Inr absolutePath \<Rightarrow>
               (case fs_readFile h absolutePath w of
                  (Inl e, w1) \<Rightarrow> (Inl (Host e), w1)
                | (Inr fileContent, w1) \<Rightarrow>
                    (let w2 = addDependency absolutePath w1 in
                     case JSON_parse h fileContent of
                       Inr sourceMap \<Rightarrow> (Inr (sourceMap, path_dirname h absolutePath), w2)
                     | Inl ex \<Rightarrow> (Inl (Cannot_parse_SourceMap_from url ex), w2)))))"

text \<open>
  The function mapped over \<open>sources\<close> in \<open>loadSourceMap\<close>, run from its start to its
  end: one source, with its index.
\<close>

definition loadSource ::
  "env \<Rightarrow> jsstring \<Rightarrow> content_value list \<Rightarrow> jsstring \<Rightarrow> nat \<Rightarrow> world
     \<Rightarrow> SourceAndContent \<times> world" where
  "loadSource h sourcesContext sourcesContent' source' sourceIndex w =
     (case resolveAbsolutePath h sourcesContext source' of
        Inl ex \<Rightarrow>
          (\<lparr>source = source',
            content = (if at_index sourcesContent' sourceIndex \<noteq> Null
                       then at_index sourcesContent' sourceIndex else Null)\<rparr>,
           emitWarning (Cannot_find_source_file source' ex) w)
      | Inr absolutePath \<Rightarrow>
          if at_index sourcesContent' sourceIndex \<noteq> Null
             \<and> at_index sourcesContent' sourceIndex \<noteq> Undefined
          then (\<lparr>source = absolutePath, content = at_index sourcesContent' sourceIndex\<rparr>, w)
          else (case fs_readFile h absolutePath w of
                  (Inl ex, w1) \<Rightarrow>
                    (\<lparr>source = absolutePath, content = Null\<rparr>,
                     emitWarning (Cannot_open_source_file absolutePath ex) w1)
                | (Inr content', w1) \<Rightarrow>
                    (\<lparr>source = absolutePath, content = Text content'\<rparr>,
                     addDependency absolutePath w1)))"

text \<open>
  \<open>loadSource\<close> is an \<open>async\<close> function with one \<open>await\<close>, at the read. When \<open>map\<close> calls
  it, it runs up to there (\<open>startSource\<close>): it has then settled, or its read is in flight.
  The rest runs when the read completes (\<open>finishSource\<close>).
\<close>

datatype started = Settled SourceAndContent | Reading jsstring

definition startSource ::
  "env \<Rightarrow> jsstring \<Rightarrow> content_value list \<Rightarrow> jsstring \<Rightarrow> nat \<Rightarrow> world
     \<Rightarrow> started \<times> world" where
  "startSource h sourcesContext sourcesContent' source' sourceIndex w =
     (case resolveAbsolutePath h sourcesContext source' of
        Inl ex \<Rightarrow>
          (Settled \<lparr>source = source',
            content = (if at_index sourcesContent' sourceIndex \<noteq> Null
                       then at_index sourcesContent' sourceIndex else Null)\<rparr>,
           emitWarning (Cannot_find_source_file source' ex) w)
      | Inr absolutePath \<Rightarrow>
          if at_index sourcesContent' sourceIndex \<noteq> Null
             \<and> at_index sourcesContent' sourceIndex \<noteq> Undefined
          then (Settled \<lparr>source = absolutePath,
                  content = at_index sourcesContent' sourceIndex\<rparr>, w)
          else (Reading absolutePath, w))"

definition finishSource :: "env \<Rightarrow> jsstring \<Rightarrow> world \<Rightarrow> SourceAndContent \<times> world" where
  "finishSource h absolutePath w =
     (case fs_readFile h absolutePath w of
        (Inl ex, w1) \<Rightarrow>
          (\<lparr>source = absolutePath, content = Null\<rparr>,
           emitWarning (Cannot_open_source_file absolutePath ex) w1)
      | (Inr content', w1) \<Rightarrow>
          (\<lparr>source = absolutePath, content = Text content'\<rparr>,
           addDependency absolutePath w1))"

text \<open>\<open>sources.map\<close>: every source is started, in index order.\<close>

fun startSources ::
  "env \<Rightarrow> jsstring \<Rightarrow> content_value list \<Rightarrow> jsstring list \<Rightarrow> nat \<Rightarrow> world
     \<Rightarrow> started list \<times> world" where
  "startSources h sourcesContext sourcesContent' [] i w = ([], w)"
| "startSources h sourcesContext sourcesContent' (s # ss) i w =
     (case startSource h sourcesContext sourcesContent' s i w of
        (st, w1) \<Rightarrow>
          (case startSources h sourcesContext sourcesContent' ss (Suc i) w1 of
             (sts, w2) \<Rightarrow> (st # sts, w2)))"

text \<open>The reads in flight, with the index of their source.\<close>

fun pending :: "nat \<Rightarrow> started list \<Rightarrow> (nat \<times> jsstring) list" where
  "pending i [] = []"
| "pending i (Settled r # sts) = pending (Suc i) sts"
| "pending i (Reading p # sts) = (i, p) # pending (Suc i) sts"

fun finishSources :: "env \<Rightarrow> (nat \<times> jsstring) list \<Rightarrow> world \<Rightarrow> world" where
  "finishSources h [] w = w"
| "finishSources h ((i, p) # ps) w = finishSources h ps (snd (finishSource h p w))"

text \<open>
  \<open>await Promise.all(sourcesPromises)\<close>: the sources are started, the reads in flight
  complete in the order of their \<open>finish_time\<close>, and the results stand in index order,
  each the value that \<open>loadSource\<close> returns for its source (a value that does not depend on
  the world, see \<open>loadSource_value\<close>).
\<close>

definition loadSources ::
  "env \<Rightarrow> jsstring \<Rightarrow> content_value list \<Rightarrow> jsstring list \<Rightarrow> world
     \<Rightarrow> SourceAndContent list \<times> world" where
  "loadSources h sourcesContext sourcesContent' sources' w =
     (case startSources h sourcesContext sourcesContent' sources' 0 w of
        (sts, w1) \<Rightarrow>
          (map (\<lambda>(s, i). fst (loadSource h sourcesContext sourcesContent' s i w))
             (zip sources' [0..<length sources']),
           finishSources h (sort_key (\<lambda>(i, p). finish_time h i) (pending 0 sts)) w1))"

definition sourcePrefix :: "RawSourceMap \<Rightarrow> jsstring" where
  "sourcePrefix sourceMap =
     (case sourceRoot sourceMap of
        None \<Rightarrow> []
      | Some root \<Rightarrow> if root = [] then [] else root @ str ''/'')"

definition loadSourceMap ::
  "env \<Rightarrow> jsstring \<Rightarrow> jsstring \<Rightarrow> bool \<Rightarrow> world \<Rightarrow> (err + RawSourceMap) \<times> world" where
  "loadSourceMap h ctx sourceMapUrl keep w =
     (case readSourceMap h ctx sourceMapUrl w of
        (Inl e, w1) \<Rightarrow> (Inl e, w1)
      | (Inr (Not_a_source_map, sourcesContext), w1) \<Rightarrow> (Inl TypeError_no_sources, w1)
      | (Inr (Source_map sourceMap, sourcesContext), w1) \<Rightarrow>
          (let sources' = map (\<lambda>s. sourcePrefix sourceMap @ s) (sources sourceMap);
               sourcesContent' = (case sourcesContent sourceMap of None \<Rightarrow> [] | Some c \<Rightarrow> c)
           in case loadSources h sourcesContext sourcesContent' sources' w1 of
                (results, w2) \<Rightarrow>
                  (Inr (sourceMap
                     \<lparr>sourceRoot := None,
                      sources := (if \<not> keep then map source results else sources sourceMap),
                      sourcesContent := Some (map content results)\<rparr>), w2)))"

text \<open>
  The raw input is a string or a buffer; \<open>BufferSource\<close> holds what \<open>String\<close> makes of the
  buffer. Only the empty string is falsy.
\<close>

datatype rawsource = StringSource jsstring | BufferSource jsstring

fun to_String :: "rawsource \<Rightarrow> jsstring" where
  "to_String (StringSource s) = s"
| "to_String (BufferSource s) = s"

record outcome =
  out_source :: rawsource
  out_map :: "RawSourceMap option"

text \<open>\<open>inputSource.match(regex1) || inputSource.match(regex2)\<close>\<close>

definition directive_match :: "jsstring \<Rightarrow> rmatch option" where
  "directive_match inputSource =
     (case exec regex1 inputSource of Some m \<Rightarrow> Some m | None \<Rightarrow> exec regex2 inputSource)"

definition loader ::
  "env \<Rightarrow> jsstring \<Rightarrow> Options \<Rightarrow> rawsource \<Rightarrow> RawSourceMap option \<Rightarrow> world
     \<Rightarrow> outcome \<times> world" where
  "loader h ctx given rawInputSource rawInputSourceMap w =
     (if rawInputSource = StringSource [] \<or> rawInputSourceMap \<noteq> None
      then (\<lparr>out_source = rawInputSource, out_map = rawInputSourceMap\<rparr>, w)
      else
        (let options = assign_options DEFAULT_OPTIONS given;
             w0 = w\<lparr>cacheable := True\<rparr>;
             inputSource = to_String rawInputSource
         in case directive_match inputSource of
              None \<Rightarrow> (\<lparr>out_source = StringSource inputSource, out_map = None\<rparr>, w0)
            | Some m \<Rightarrow>
                (case loadSourceMap h ctx (group1 m)
                        (keepRelativeSources options = Some True) w0 of
                   (Inl ex, w1) \<Rightarrow>
                     (\<lparr>out_source = StringSource inputSource, out_map = None\<rparr>,
                      emitWarning ex w1)
                 | (Inr sourceMap, w1) \<Rightarrow>
                     (\<lparr>out_source = StringSource (replace_first inputSource (whole m)),
                       out_map = Some sourceMap\<rparr>, w1))))"

section \<open>A sample host\<close>

text \<open>
  A host for the concrete runs: the directory \<open>/app\<close> holds the map files \<open>a.map\<close>,
  \<open>b.map\<close> and \<open>d.map\<close> and the source \<open>src/a.ts\<close>. The file \<open>a.map\<close> holds the text
  \<open>A\<close>, which parses to \<open>map_A\<close>, and so on; \<open>d.map\<close> holds the text \<open>D\<close>, which parses
  to a JSON value without \<open>sources\<close>; every other text fails to parse. Base64 decoding
  knows the encodings of the three texts \<open>A\<close>, \<open>B\<close> and \<open>C\<close>. \<open>sample_resolve\<close> joins a relative
  path to the base directory and leaves a path that starts with a slash as it is. The
  reads of the sources complete in index order.
\<close>

definition sample_resolve :: "jsstring \<Rightarrow> jsstring \<Rightarrow> jsstring" where
  "sample_resolve ctx p = (if startsWith p (str ''/'') then p else ctx @ str ''/'' @ p)"

definition sample_dirname :: "jsstring \<Rightarrow> jsstring" where
  "sample_dirname p = rev (drop 1 (dropWhile (\<lambda>c. c \<noteq> 47) (rev p)))"

definition map_A :: RawSourceMap where
  "map_A = \<lparr>version = 3, file' = Some (str ''a.js''), sourceRoot = Some (str ''src''),
     sources = [str ''a.ts''], sourcesContent = None, mappings = str ''AAAA''\<rparr>"

definition map_B :: RawSourceMap where
  "map_B = \<lparr>version = 3, file' = Some (str ''b.js''), sourceRoot = None,
     sources = [str ''http://h/x.ts'', str ''gone.ts'', str ''src/a.ts''],
     sourcesContent = None, mappings = str ''AAAA''\<rparr>"

definition map_C :: RawSourceMap where
  "map_C = \<lparr>version = 3, file' = Some (str ''c.js''), sourceRoot = None,
     sources = [str ''c.ts''], sourcesContent = Some [Text (str ''let c'')],
     mappings = str ''AAAA''\<rparr>"

definition sample_files :: "(jsstring \<times> jsstring) list" where
  "sample_files =
     [(str ''/app/a.map'', str ''A''), (str ''/app/b.map'', str ''B''),
      (str ''/app/src/a.ts'', str ''let a''), (str ''/app/d.map'', str ''D'')]"

definition sample_host :: env where
  "sample_host =
     \<lparr>readFile = (\<lambda>p. case map_of sample_files p of
                         Some t \<Rightarrow> Inr t
                       | None \<Rightarrow> Inl (HostErr (str ''ENOENT''))),
      path_resolve = sample_resolve,
      path_dirname = sample_dirname,
      fileURLToPath = Some (\<lambda>u. Inr (drop 7 u)),
      JSON_parse = (\<lambda>t. if t = str ''A'' then Inr (Source_map map_A)
                         else if t = str ''B'' then Inr (Source_map map_B)
                         else if t = str ''C'' then Inr (Source_map map_C)
                         else if t = str ''D'' then Inr Not_a_source_map
                         else Inl (HostErr (str ''SyntaxError''))),
      base64_toString = (\<lambda>b. if b = str ''QQ=='' then str ''A''
                              else if b = str ''Qg=='' then str ''B''
                              else if b = str ''Qw=='' then str ''C''
                              else str ''?''),
      finish_time = (\<lambda>i. i)\<rparr>"

section \<open>Notions used in the statements\<close>

text \<open>
  A reference begins with a scheme: two or more letters, then a colon.
\<close>

definition scheme_prefixed :: "jsstring \<Rightarrow> bool" where
  "scheme_prefixed url =
     (2 \<le> length (takeWhile is_alpha url) \<and> startsWith (dropWhile is_alpha url) [58])"

text \<open>
  A source fails: its path does not resolve, or its content is not in the map and its
  file cannot be read.
\<close>

definition source_fails ::
  "env \<Rightarrow> jsstring \<Rightarrow> content_value list \<Rightarrow> jsstring \<Rightarrow> nat \<Rightarrow> bool" where
  "source_fails h sourcesContext sc s i =
     (case resolveAbsolutePath h sourcesContext s of
        Inl e \<Rightarrow> True
      | Inr p \<Rightarrow> (at_index sc i = Null \<or> at_index sc i = Undefined) \<and> isl (readFile h p))"

text \<open>One source of the list, handled on its own in a fresh world.\<close>

definition alone ::
  "env \<Rightarrow> jsstring \<Rightarrow> content_value list \<Rightarrow> jsstring \<times> nat \<Rightarrow> SourceAndContent \<times> world" where
  "alone h sourcesContext sc p = loadSource h sourcesContext sc (fst p) (snd p) fresh"

text \<open>\<open>extend w d\<close>: the world \<open>w\<close> followed by the warnings, dependencies and reads of \<open>d\<close>.\<close>

definition extend :: "world \<Rightarrow> world \<Rightarrow> world" where
  "extend w d =
     w\<lparr>warnings := warnings w @ warnings d,
       dependencies := dependencies w @ dependencies d,
       reads := reads w @ reads d\<rparr>"

text \<open>The warnings of the read of a source that was started, if it has one.\<close>

definition read_warnings :: "env \<Rightarrow> started \<Rightarrow> err list" where
  "read_warnings h st =
     (case st of Settled r \<Rightarrow> [] | Reading p \<Rightarrow> warnings (snd (finishSource h p fresh)))"

text \<open>
  The read of the map file that a reference calls for: none when the reference is an
  inline map (the data-URI pattern matches it) or does not resolve, else one read of the
  resolved path, with its outcome.
\<close>

definition map_read :: "env \<Rightarrow> jsstring \<Rightarrow> jsstring \<Rightarrow> (jsstring \<times> bool) list" where
  "map_read h ctx url =
     (if exec regexDataUrl url \<noteq> None then []
      else case resolveAbsolutePath h ctx url of
             Inl e \<Rightarrow> []
           | Inr p \<Rightarrow> [(p, \<not> isl (readFile h p))])"

text \<open>
  The read that a source calls for: none when its path does not resolve or its content is
  in the map, else one read of the resolved path, with its outcome.
\<close>

definition source_read ::
  "env \<Rightarrow> jsstring \<Rightarrow> content_value list \<Rightarrow> jsstring \<times> nat \<Rightarrow> (jsstring \<times> bool) list" where
  "source_read h sourcesContext sc q =
     (case resolveAbsolutePath h sourcesContext (fst q) of
        Inl e \<Rightarrow> []
      | Inr p \<Rightarrow> if at_index sc (snd q) = Null \<or> at_index sc (snd q) = Undefined
                then [(p, \<not> isl (readFile h p))] else [])"

text \<open>
  The source map that a reference gives, with the directory of its sources, if it gives
  one; and the reads that the sources of that map call for, in index order.
\<close>

definition loaded_map :: "env \<Rightarrow> jsstring \<Rightarrow> jsstring \<Rightarrow> (RawSourceMap \<times> jsstring) option" where
  "loaded_map h ctx url =
     (case fst (readSourceMap h ctx url fresh) of
        Inl e \<Rightarrow> None
      | Inr (Not_a_source_map, sourcesContext) \<Rightarrow> None
      | Inr (Source_map sourceMap, sourcesContext) \<Rightarrow> Some (sourceMap, sourcesContext))"

definition source_reads :: "env \<Rightarrow> jsstring \<Rightarrow> jsstring \<Rightarrow> (jsstring \<times> bool) list" where
  "source_reads h ctx url =
     (case loaded_map h ctx url of
        None \<Rightarrow> []
      | Some (sourceMap, sourcesContext) \<Rightarrow>
          concat (map (source_read h sourcesContext
                         (case sourcesContent sourceMap of None \<Rightarrow> [] | Some c \<Rightarrow> c))
                    (zip (map (\<lambda>s. sourcePrefix sourceMap @ s) (sources sourceMap))
                       [0..<length (sources sourceMap)])))"

section \<open>Strings and matching: basic facts\<close>

lemma startsWith_Nil [simp]: "startsWith s []"
  by (simp add: startsWith_def)

lemma startsWith_Cons:
  "startsWith s (c # cs) = (case s of [] \<Rightarrow> False | x # xs \<Rightarrow> x = c \<and> startsWith xs cs)"
  by (cases s) (auto simp: startsWith_def)

lemma startsWith_append: "startsWith (p @ s) p"
  by (simp add: startsWith_def)

lemma startsWith_iff: "startsWith s p \<longleftrightarrow> (\<exists>t. s = p @ t)"
  unfolding startsWith_def
  by (metis append_eq_conv_conj append_take_drop_id)

lemma set_ms_Seq: "set (ms (Seq a b) st) = (\<Union>y \<in> set (ms a st). set (ms b y))"
  by simp

lemma star_ms_iff: "t \<in> set (star_ms p s) \<longleftrightarrow> (\<exists>u. s = u @ t \<and> list_all p u)"
proof (induction s)
  case Nil
  then show ?case by auto
next
  case (Cons x xs)
  show ?case
  proof (cases "p x")
    case True
    have "(\<exists>u. x # xs = u @ t \<and> list_all p u) \<longleftrightarrow> (t = x # xs \<or> (\<exists>u. xs = u @ t \<and> list_all p u))"
      using True by (auto simp: Cons_eq_append_conv)
    then show ?thesis using True Cons by auto
  next
    case False
    have "(\<exists>u. x # xs = u @ t \<and> list_all p u) \<longleftrightarrow> t = x # xs"
      using False by (auto simp: Cons_eq_append_conv)
    then show ?thesis using False by auto
  qed
qed

lemma ms_suffix: "(c', s') \<in> set (ms r (c, s)) \<Longrightarrow> \<exists>u. s = u @ s'"
proof (induction r arbitrary: c s c' s')
  case (Atom p)
  then show ?case by (auto split: list.splits if_splits)
next
  case (Seq a b)
  then obtain c1 s1 where 1: "(c1, s1) \<in> set (ms a (c, s))" and 2: "(c', s') \<in> set (ms b (c1, s1))"
    by auto
  from Seq.IH(1)[OF 1] Seq.IH(2)[OF 2] show ?case by auto
next
  case (Star p)
  then show ?case by (auto simp: star_ms_iff)
next
  case (NegLook r)
  then show ?case by (auto split: if_splits)
qed (auto split: if_splits)

lemma ms_suffix': "x \<in> set (ms r z) \<Longrightarrow> \<exists>u. snd z = u @ snd x"
  using ms_suffix [of "fst x" "snd x" r "fst z" "snd z"] by simp

lemma ms_lit: "ms (lit m) (c, s) = (if startsWith s m then [(c, drop (length m) s)] else [])"
proof (induction m arbitrary: s)
  case Nil
  then show ?case by simp
next
  case (Cons a m)
  then show ?case by (cases s) (auto simp: startsWith_Cons)
qed

lemma occurs_star: "occurs p s \<longleftrightarrow> (\<exists>t \<in> set (star_ms (\<lambda>c. True) s). startsWith t p)"
proof (induction s)
  case Nil
  then show ?case by (auto simp: startsWith_def)
next
  case (Cons x xs)
  then show ?case by auto
qed

lemma occurs_append: "occurs p t \<Longrightarrow> occurs p (u @ t)"
proof (induction u)
  case Nil
  then show ?case by simp
next
  case (Cons a u)
  then show ?case by simp
qed

lemma marker_nonempty: "marker \<noteq> []"
  by (simp add: marker_def str_def)

lemma ms_lookahead: "ms lookahead (c, s) = (if occurs marker s then [] else [(c, s)])"
proof -
  have "ms (Seq (Star (\<lambda>c. True)) (lit marker)) (c, s) = [] \<longleftrightarrow> \<not> occurs marker s"
    by (auto simp: ms_lit occurs_star)
  then show ?thesis unfolding lookahead_def by (simp del: ms.simps(3,5))
qed

lemma set_baseWith:
  "set (ms (baseWith look) st) = (\<Union>y \<in> set (ms (baseWith Eps) st). set (ms look y))"
  unfolding baseWith_def by (simp only: set_ms_Seq ms.simps(1)) auto

lemma in_Seq3:
  "x \<in> set (ms (Seq a (Seq b c)) st) \<longleftrightarrow>
     (\<exists>y \<in> set (ms a st). \<exists>z \<in> set (ms b y). x \<in> set (ms c z))"
  by simp

lemma in_blockWith:
  "x \<in> set (ms (blockWith (baseWith look)) st) \<longleftrightarrow>
     (\<exists>y \<in> set (ms (lit (str ''/*'')) st). \<exists>z \<in> set (ms (baseWith Eps) y).
        \<exists>z' \<in> set (ms look z). x \<in> set (ms (Seq (Star is_space) (lit (str ''*/''))) z'))"
  unfolding blockWith_def in_Seq3 set_baseWith [of look] by blast

lemma in_lineWith:
  "x \<in> set (ms (lineWith (baseWith look)) st) \<longleftrightarrow>
     (\<exists>y \<in> set (ms (lit (str ''//'')) st). \<exists>z \<in> set (ms (baseWith Eps) y).
        \<exists>z' \<in> set (ms look z).
          x \<in> set (ms (Alt Eol (Alt (lit [10]) (Seq (lit [13]) (opt (lit [10]))))) z'))"
  unfolding lineWith_def in_Seq3 set_baseWith [of look] by blast


lemma ms_Eps_set: "z' \<in> set (ms Eps z) \<longleftrightarrow> z' = z"
  by auto

lemma regex1_sound:
  assumes "x \<in> set (ms regex1 st)"
  shows "x \<in> set (ms regex1_plain st) \<and> \<not> occurs marker (snd x)"
proof -
  from assms obtain y z z' where y: "y \<in> set (ms (lit (str ''/*'')) st)"
    and z: "z \<in> set (ms (baseWith Eps) y)" and z': "z' \<in> set (ms lookahead z)"
    and x: "x \<in> set (ms (Seq (Star is_space) (lit (str ''*/''))) z')"
    unfolding regex1_def baseRegex_def in_blockWith by blast
  from z' have eq: "z' = z" and no: "\<not> occurs marker (snd z)"
    by (cases z; simp add: ms_lookahead split: if_splits)+
  have "x \<in> set (ms regex1_plain st)"
    unfolding regex1_plain_def in_blockWith using y z x eq ms_Eps_set [of z z] by blast
  moreover have "\<not> occurs marker (snd x)"
  proof
    assume o: "occurs marker (snd x)"
    obtain u where "snd z = u @ snd x"
      using ms_suffix' [OF x] eq by blast
    with o no show False by (simp add: occurs_append)
  qed
  ultimately show ?thesis by simp
qed

lemma regex2_sound:
  assumes "x \<in> set (ms regex2 st)"
  shows "x \<in> set (ms regex2_plain st) \<and> \<not> occurs marker (snd x)"
proof -
  from assms obtain y z z' where y: "y \<in> set (ms (lit (str ''//'')) st)"
    and z: "z \<in> set (ms (baseWith Eps) y)" and z': "z' \<in> set (ms lookahead z)"
    and x: "x \<in> set (ms (Alt Eol (Alt (lit [10]) (Seq (lit [13]) (opt (lit [10]))))) z')"
    unfolding regex2_def baseRegex_def in_lineWith by blast
  from z' have eq: "z' = z" and no: "\<not> occurs marker (snd z)"
    by (cases z; simp add: ms_lookahead split: if_splits)+
  have "x \<in> set (ms regex2_plain st)"
    unfolding regex2_plain_def in_lineWith using y z x eq ms_Eps_set [of z z] by blast
  moreover have "\<not> occurs marker (snd x)"
  proof
    assume o: "occurs marker (snd x)"
    obtain u where "snd z = u @ snd x"
      using ms_suffix' [OF x] eq by blast
    with o no show False by (simp add: occurs_append)
  qed
  ultimately show ?thesis by simp
qed

lemma len_tails: "t' \<in> set (tails s') \<Longrightarrow> length t' \<le> length s'"
  by (induction s') auto

lemma match_at_None: "match_at r i s = None \<longleftrightarrow> ms r ([], s) = []"
  by (auto simp: match_at_def split: list.splits)

lemma exec_from_None: "exec_from r i s = None \<longleftrightarrow> (\<forall>t \<in> set (tails s). ms r ([], t) = [])"
proof (induction s arbitrary: i)
  case Nil
  then show ?case by (simp add: match_at_None)
next
  case (Cons x xs)
  show ?case
  proof (cases "match_at r i (x # xs)")
    case None
    then show ?thesis using Cons [of "Suc i"] match_at_None [of r i "x # xs"] by simp
  next
    case (Some m)
    then have "ms r ([], x # xs) \<noteq> []" using match_at_None [of r i "x # xs"] by simp
    then show ?thesis using Some by simp
  qed
qed

lemma exec_from_Some:
  "exec_from r i s = Some m \<Longrightarrow>
     \<exists>pre t. s = pre @ t \<and> match_at r (i + length pre) t = Some m"
proof (induction s arbitrary: i)
  case Nil
  then show ?case by auto
next
  case (Cons x xs)
  show ?case
  proof (cases "match_at r i (x # xs)")
    case None
    with Cons.prems have "exec_from r (Suc i) xs = Some m" by simp
    from Cons.IH [OF this] obtain pre t where "xs = pre @ t" "match_at r (Suc i + length pre) t = Some m"
      by blast
    then have "x # xs = (x # pre) @ t \<and> match_at r (i + length (x # pre)) t = Some m" by simp
    then show ?thesis by blast
  next
    case (Some a)
    with Cons.prems have "x # xs = [] @ (x # xs) \<and> match_at r (i + length ([]::jsstring)) (x # xs) = Some m"
      by simp
    then show ?thesis by blast
  qed
qed

lemma match_at_Some:
  "match_at r i s = Some m \<Longrightarrow> \<exists>rest. (group1 m, rest) \<in> set (ms r ([], s)) \<and> index m = i
     \<and> s = whole m @ rest"
proof -
  assume a: "match_at r i s = Some m"
  then obtain c rest more where ms: "ms r ([], s) = (c, rest) # more"
    and m: "m = \<lparr>index = i, whole = take (length s - length rest) s, group1 = c\<rparr>"
    by (auto simp: match_at_def split: list.splits)
  from ms have "(c, rest) \<in> set (ms r ([], s))" by simp
  from ms_suffix [OF this] obtain u where "s = u @ rest" by blast
  then show ?thesis using m ms by auto
qed

section \<open>Effects as extensions of the world\<close>

lemma extend_fresh [simp]: "extend w fresh = w"
  by (simp add: extend_def fresh_def)

lemma extend_assoc: "extend (extend w a) b = extend w (extend a b)"
  by (simp add: extend_def)

lemma extend_sel [simp]:
  "warnings (extend w d) = warnings w @ warnings d"
  "dependencies (extend w d) = dependencies w @ dependencies d"
  "reads (extend w d) = reads w @ reads d"
  "cacheable (extend w d) = cacheable w"
  by (simp_all add: extend_def)

lemma fs_readFile_delta:
  "fs_readFile h p w = (readFile h p, extend w (fresh\<lparr>reads := [(p, \<not> isl (readFile h p))]\<rparr>))"
  by (cases "readFile h p") (simp_all add: fs_readFile_def extend_def fresh_def)

lemma emitWarning_delta: "emitWarning e w = extend w (fresh\<lparr>warnings := [e]\<rparr>)"
  by (simp add: emitWarning_def extend_def fresh_def)

lemma addDependency_delta: "addDependency p w = extend w (fresh\<lparr>dependencies := [p]\<rparr>)"
  by (simp add: addDependency_def extend_def fresh_def)

lemma extend_fresh_left [simp]: "extend fresh (fresh\<lparr>reads := r\<rparr>) = fresh\<lparr>reads := r\<rparr>"
  "extend fresh (fresh\<lparr>warnings := ws\<rparr>) = fresh\<lparr>warnings := ws\<rparr>"
  "extend fresh (fresh\<lparr>dependencies := ds\<rparr>) = fresh\<lparr>dependencies := ds\<rparr>"
  by (simp_all add: extend_def fresh_def)

lemma extend_fresh_left' [simp]: "extend fresh d = d\<lparr>cacheable := False\<rparr>"
  by (simp add: extend_def fresh_def)

lemma loadSource_delta:
  "loadSource h sctx sc s i w =
     (fst (alone h sctx sc (s, i)), extend w (snd (alone h sctx sc (s, i))))"
  unfolding alone_def loadSource_def fs_readFile_delta emitWarning_delta addDependency_delta
  by (auto split: sum.splits simp: extend_assoc extend_def fresh_def)

section \<open>Running the patterns\<close>

text \<open>The definitions that a run of the patterns on a given text unfolds.\<close>

lemmas pattern_defs = regex1_def regex2_def regex1_plain_def regex2_plain_def blockWith_def
  lineWith_def baseWith_def baseRegex_def lookahead_def marker_def str_def is_space_def opt_def
  plus_def exec_def match_at_def directive_match_def startsWith_def

section \<open>Path resolution\<close>

lemma not_alpha_colon: "\<not> is_alpha 58"
  by (simp add: is_alpha_def)

lemma startsWith_single: "startsWith s [c] \<longleftrightarrow> (\<exists>t. s = c # t)"
  by (cases s) (auto simp: startsWith_def)

lemma scheme_prefixed_iff:
  "scheme_prefixed url \<longleftrightarrow>
     (\<exists>letters rest. 2 \<le> length letters \<and> list_all is_alpha letters \<and> url = letters @ 58 # rest)"
proof
  assume "scheme_prefixed url"
  then obtain t where "2 \<le> length (takeWhile is_alpha url)" "dropWhile is_alpha url = 58 # t"
    by (auto simp: scheme_prefixed_def startsWith_single)
  moreover have "list_all is_alpha (takeWhile is_alpha url)"
    by (simp add: list_all_iff) (meson set_takeWhileD)
  moreover have "url = takeWhile is_alpha url @ dropWhile is_alpha url" by simp
  ultimately show "\<exists>letters rest. 2 \<le> length letters \<and> list_all is_alpha letters
      \<and> url = letters @ 58 # rest"
    by metis
next
  assume "\<exists>letters rest. 2 \<le> length letters \<and> list_all is_alpha letters \<and> url = letters @ 58 # rest"
  then obtain letters rest where l: "2 \<le> length letters" "list_all is_alpha letters"
    "url = letters @ 58 # rest" by blast
  have "takeWhile is_alpha url = letters" "dropWhile is_alpha url = 58 # rest"
    using l not_alpha_colon by (simp_all add: list_all_iff takeWhile_append2 dropWhile_append2)
  then show "scheme_prefixed url" using l by (simp add: scheme_prefixed_def startsWith_single)
qed

lemma ms_nonempty: "ms r st \<noteq> [] \<longleftrightarrow> (\<exists>x. x \<in> set (ms r st))"
  by (cases "ms r st") auto

lemma regexUrl_paths:
  "x \<in> set (ms regexUrl ([], url)) \<longleftrightarrow>
     (\<exists>a b u rest. url = a # b # u @ 58 # rest \<and> is_alpha a \<and> is_alpha b \<and> list_all is_alpha u
        \<and> x = ([], rest))"
  unfolding regexUrl_def
  by (cases url; cases "tl url")
    (auto simp: ms_lit star_ms_iff startsWith_single split: if_splits)

lemma regexUrl_test: "test_anchored regexUrl url = scheme_prefixed url"
proof -
  have "test_anchored regexUrl url \<longleftrightarrow>
      (\<exists>a b u rest. url = a # b # u @ 58 # rest \<and> is_alpha a \<and> is_alpha b \<and> list_all is_alpha u)"
    unfolding test_anchored_def ms_nonempty regexUrl_paths by blast
  also have "\<dots> \<longleftrightarrow> (\<exists>letters rest. 2 \<le> length letters \<and> list_all is_alpha letters
      \<and> url = letters @ 58 # rest)"
  proof
    assume "\<exists>a b u rest. url = a # b # u @ 58 # rest \<and> is_alpha a \<and> is_alpha b \<and> list_all is_alpha u"
    then obtain a b u rest where "url = (a # b # u) @ 58 # rest" "2 \<le> length (a # b # u)"
      "list_all is_alpha (a # b # u)" by auto
    then show "\<exists>letters rest. 2 \<le> length letters \<and> list_all is_alpha letters
      \<and> url = letters @ 58 # rest" by blast
  next
    assume "\<exists>letters rest. 2 \<le> length letters \<and> list_all is_alpha letters
      \<and> url = letters @ 58 # rest"
    then obtain letters rest where l: "2 \<le> length letters" "list_all is_alpha letters"
      "url = letters @ 58 # rest" by blast
    then obtain a b u where "letters = a # b # u"
      by (cases letters; cases "tl letters") auto
    with l show "\<exists>a b u rest. url = a # b # u @ 58 # rest \<and> is_alpha a \<and> is_alpha b
        \<and> list_all is_alpha u" by auto
  qed
  finally show ?thesis by (simp add: scheme_prefixed_iff)
qed

lemma drive_not_scheme: "\<not> scheme_prefixed (d # 58 # rest)"
  by (simp add: scheme_prefixed_def not_alpha_colon)

lemma drive_not_file: "\<not> startsWith (d # 58 # rest) FILE_SCHEME"
  by (simp add: startsWith_def FILE_SCHEME_def str_def)

text \<open>
  Claim C6. Path resolution fails with the unsupported-scheme error exactly when the
  reference begins with two or more letters followed by a colon and does not start with
  \<open>file:\<close>. A reference whose second code unit is the colon (a drive prefix such as
  \<open>C:\<close>) is never taken for a scheme: it is handed to \<open>path.resolve\<close> with the base
  directory. So is every other reference without a scheme, and a \<open>file:\<close> reference
  after its conversion by \<open>fileURLToPath\<close>. What \<open>path.resolve\<close> makes of an absolute
  path is the platform's business and a parameter here.
\<close>

theorem resolveAbsolutePath_scheme_check:
  "((\<exists>e. resolveAbsolutePath h ctx url = Inl (URL_scheme_not_supported e))
      \<longleftrightarrow> scheme_prefixed url \<and> \<not> startsWith url FILE_SCHEME)
   \<and> (scheme_prefixed url \<and> \<not> startsWith url FILE_SCHEME
        \<longrightarrow> resolveAbsolutePath h ctx url = Inl (URL_scheme_not_supported url))
   \<and> resolveAbsolutePath h ctx (d # 58 # rest) = Inr (path_resolve h ctx (d # 58 # rest))
   \<and> (\<not> scheme_prefixed url \<and> \<not> startsWith url FILE_SCHEME
        \<longrightarrow> resolveAbsolutePath h ctx url = Inr (path_resolve h ctx url))
   \<and> (startsWith url FILE_SCHEME \<longrightarrow>
        resolveAbsolutePath h ctx url =
          (case fileURLToPath h of
             None \<Rightarrow> Inl (File_URL_scheme_support_requires_node_10 url)
           | Some f \<Rightarrow> (case f url of
                         Inl e \<Rightarrow> Inl (Host e)
                       | Inr filepath \<Rightarrow> Inr (path_resolve h ctx filepath))))"
proof -
  have 1: "(\<exists>e. resolveAbsolutePath h ctx url = Inl (URL_scheme_not_supported e))
      \<longleftrightarrow> scheme_prefixed url \<and> \<not> startsWith url FILE_SCHEME"
    by (auto simp: resolveAbsolutePath_def regexUrl_test split: option.splits sum.splits)
  have 2: "scheme_prefixed url \<and> \<not> startsWith url FILE_SCHEME
        \<longrightarrow> resolveAbsolutePath h ctx url = Inl (URL_scheme_not_supported url)"
    by (simp add: resolveAbsolutePath_def regexUrl_test)
  have 3: "resolveAbsolutePath h ctx (d # 58 # rest) = Inr (path_resolve h ctx (d # 58 # rest))"
    by (simp add: resolveAbsolutePath_def regexUrl_test drive_not_scheme drive_not_file)
  have 4: "\<not> scheme_prefixed url \<and> \<not> startsWith url FILE_SCHEME
        \<longrightarrow> resolveAbsolutePath h ctx url = Inr (path_resolve h ctx url)"
    by (simp add: resolveAbsolutePath_def regexUrl_test)
  have 5: "startsWith url FILE_SCHEME \<longrightarrow>
        resolveAbsolutePath h ctx url =
          (case fileURLToPath h of
             None \<Rightarrow> Inl (File_URL_scheme_support_requires_node_10 url)
           | Some f \<Rightarrow> (case f url of
                         Inl e \<Rightarrow> Inl (Host e)
                       | Inr filepath \<Rightarrow> Inr (path_resolve h ctx filepath)))"
    by (simp add: resolveAbsolutePath_def)
  from 1 2 3 4 5 show ?thesis by blast
qed

lemmas host_defs = sample_host_def sample_files_def sample_resolve_def sample_dirname_def
  map_A_def map_B_def map_C_def

lemmas loader_defs = loader_def loadSourceMap_def readSourceMap_def loadSource_def
  loadSources_def startSource_def finishSource_def
  resolveAbsolutePath_def fs_readFile_def emitWarning_def addDependency_def at_index_def
  sourcePrefix_def assign_options_def DEFAULT_OPTIONS_def fresh_def test_anchored_def
  regexUrl_def regexDataUrl_def FILE_SCHEME_def is_alpha_def is_base64_def

theorem resolveAbsolutePath_scheme_check_witness:
  "scheme_prefixed (str ''http://h/x.ts'') \<and> \<not> startsWith (str ''http://h/x.ts'') FILE_SCHEME
   \<and> resolveAbsolutePath sample_host (str ''/app'') (str ''http://h/x.ts'')
       = Inl (URL_scheme_not_supported (str ''http://h/x.ts''))
   \<and> resolveAbsolutePath sample_host (str ''/app'') (67 # 58 # str ''/x'')
       = Inr (str ''/app/C:/x'')
   \<and> \<not> scheme_prefixed (str ''src/a.ts'') \<and> \<not> startsWith (str ''src/a.ts'') FILE_SCHEME
   \<and> resolveAbsolutePath sample_host (str ''/app'') (str ''src/a.ts'')
       = Inr (str ''/app/src/a.ts'')
   \<and> startsWith (str ''file:///x/y'') FILE_SCHEME
   \<and> resolveAbsolutePath sample_host (str ''/app'') (str ''file:///x/y'') = Inr (str ''/x/y'')"
proof -
  have a: "scheme_prefixed (str ''http://h/x.ts'') \<and> \<not> startsWith (str ''http://h/x.ts'') FILE_SCHEME"
    by (simp add: scheme_prefixed_def startsWith_def FILE_SCHEME_def str_def is_alpha_def)
  have b: "\<not> scheme_prefixed (str ''src/a.ts'') \<and> \<not> startsWith (str ''src/a.ts'') FILE_SCHEME"
    by (simp add: scheme_prefixed_def startsWith_def FILE_SCHEME_def str_def is_alpha_def)
  have c: "startsWith (str ''file:///x/y'') FILE_SCHEME"
    by (simp add: startsWith_def FILE_SCHEME_def str_def)
  note t = resolveAbsolutePath_scheme_check [of sample_host "str ''/app''"]
  show ?thesis
    using a b c t [of "str ''http://h/x.ts''" 67 "str ''/x''"] t [of "str ''src/a.ts''"]
      t [of "str ''file:///x/y''"]
    by (simp add: host_defs startsWith_def str_def)
qed


section \<open>Failures of the map itself\<close>

lemma star_ms_self: "s \<in> set (star_ms p s)"
  using star_ms_iff [of s p s] by (auto intro: exI [of _ "[]"])

lemma star_ms_skip: "list_all p u \<Longrightarrow> t \<in> set (star_ms p (u @ t))"
  using star_ms_iff [of t p "u @ t"] by blast

lemma in_ms_plus: "p a \<Longrightarrow> list_all p u \<Longrightarrow> (c, t) \<in> set (ms (plus p) (c, a # u @ t))"
  by (simp add: plus_def star_ms_skip)

lemma in_ms_opt_skip: "st \<in> set (ms (opt r) st)"
  by (simp add: opt_def)

lemma in_ms_lit: "(c, t) \<in> set (ms (lit m) (c, m @ t))"
  by (simp add: ms_lit startsWith_append)

lemma in_ms_Seq: "y \<in> set (ms a st) \<Longrightarrow> x \<in> set (ms b y) \<Longrightarrow> x \<in> set (ms (Seq a b) st)"
  by auto

text \<open>
  The data-URI pattern matches every reference of the form \<open>data:<mime>;base64,<payload>\<close>
  whose payload begins with a base64 character.
\<close>

lemma regexDataUrl_matches:
  assumes "mime \<noteq> []" and "list_all (\<lambda>c. c \<noteq> 59 \<and> c \<noteq> 10) mime" and "is_base64 b"
  shows "exec regexDataUrl (str ''data:'' @ mime @ str '';base64,'' @ b # rest) \<noteq> None"
proof -
  let ?s = "str ''data:'' @ mime @ str '';base64,'' @ b # rest"
  obtain a u where mime: "mime = a # u" using assms(1) by (cases mime) auto
  have 1: "([], mime @ str '';base64,'' @ b # rest) \<in> set (ms (lit (str ''data:'')) ([], ?s))"
    by (rule in_ms_lit)
  have 2: "([], str '';base64,'' @ b # rest)
      \<in> set (ms (plus (\<lambda>c. c \<noteq> 59 \<and> c \<noteq> 10)) ([], mime @ str '';base64,'' @ b # rest))"
    using in_ms_plus [of "\<lambda>c. c \<noteq> 59 \<and> c \<noteq> 10" a u "[]" "str '';base64,'' @ b # rest"]
      assms(2) mime by simp
  have 3: "([], str '';base64,'' @ b # rest)
      \<in> set (ms (opt (Seq (lit (str '';charset='')) (plus (\<lambda>c. c \<noteq> 59 \<and> c \<noteq> 10))))
          ([], str '';base64,'' @ b # rest))"
    by (rule in_ms_opt_skip)
  have 4: "([], b # rest) \<in> set (ms (lit (str '';base64,'')) ([], str '';base64,'' @ b # rest))"
    by (rule in_ms_lit)
  have "([], rest) \<in> set (ms (plus is_base64) ([], b # [] @ rest))"
    using assms(3) by (intro in_ms_plus) simp_all
  then have "([], rest) \<in> set (ms (Seq (plus is_base64) (opt (Seq (lit [61]) (opt (lit [61])))))
      ([], b # rest))"
    using in_ms_opt_skip [of "([], rest)"] by (intro in_ms_Seq) simp_all
  then have 5: "ms (Group (Seq (plus is_base64) (opt (Seq (lit [61]) (opt (lit [61]))))))
      ([], b # rest) \<noteq> []"
    by (simp only: ms.simps(6)) force
  then obtain x where x: "x \<in> set (ms (Group (Seq (plus is_base64)
      (opt (Seq (lit [61]) (opt (lit [61])))))) ([], b # rest))"
    by (meson ms_nonempty)
  have "x \<in> set (ms regexDataUrl ([], ?s))"
    unfolding regexDataUrl_def
    by (intro in_ms_Seq [OF 1] in_ms_Seq [OF 2] in_ms_Seq [OF 3] in_ms_Seq [OF 4] x)
  then have "ms regexDataUrl ([], ?s) \<noteq> []" by auto
  moreover have "?s \<in> set (tails ?s)" by (cases ?s) auto
  ultimately have "exec_from regexDataUrl 0 ?s \<noteq> None"
    unfolding exec_from_None by blast
  then show ?thesis by (simp add: exec_def)
qed




text \<open>
  Whatever the host: when the read of the map file fails, the warning is the exception of
  the read itself.
\<close>

lemma failed_map_read:
  assumes "raw \<noteq> StringSource []" and "directive_match (to_String raw) = Some m"
    and "exec regexDataUrl (group1 m) = None"
    and "resolveAbsolutePath h ctx (group1 m) = Inr p"
    and "readFile h p = Inl e"
  shows "loader h ctx given raw None w =
     (\<lparr>out_source = StringSource (to_String raw), out_map = None\<rparr>,
      w\<lparr>cacheable := True, reads := reads w @ [(p, False)],
        warnings := warnings w @ [Host e]\<rparr>)"
  using assms
  by (simp add: loader_def loadSourceMap_def readSourceMap_def fs_readFile_def emitWarning_def)

text \<open>
  Claim C8. The claim: when the active directive names a map file that does not exist,
  the invocation emits a warning that matches a "cannot open" pattern, leaves the text
  unchanged, yields no map and registers no dependency. The run below, on a text whose
  directive names the absent file \<open>missing.map\<close>, leaves the text unchanged, yields no map
  and registers no dependency, but the one warning it emits is the exception that
  \<open>fs.readFile\<close> raised, handed on as it is: \<open>readSourceMap\<close> does not wrap a failed read
  of the map file, while \<open>loadSourceMap\<close> wraps a failed read of a source file in
  "Cannot open source file".
\<close>

theorem missing_map_file_warning:
  "loader sample_host (str ''/app'') \<lparr>keepRelativeSources = None\<rparr>
      (StringSource (str ''x //# sourceMappingURL=missing.map'')) None fresh =
     (\<lparr>out_source = StringSource (str ''x //# sourceMappingURL=missing.map''), out_map = None\<rparr>,
      \<lparr>warnings = [Host (HostErr (str ''ENOENT''))], dependencies = [],
       reads = [(str ''/app/missing.map'', False)], cacheable = True\<rparr>)"
  by (simp add: pattern_defs loader_defs host_defs)

section \<open>Enrichment\<close>

lemma foldl_extend_sel:
  "warnings (foldl extend w ds) = warnings w @ concat (map warnings ds)"
  "dependencies (foldl extend w ds) = dependencies w @ concat (map dependencies ds)"
  "reads (foldl extend w ds) = reads w @ concat (map reads ds)"
  "cacheable (foldl extend w ds) = cacheable w"
  by (induction ds arbitrary: w; simp)+

lemma loadSource_value:
  "fst (loadSource h sctx sc s i w) = fst (loadSource h sctx sc s i w')"
  by (simp add: loadSource_delta)

lemma startSource_delta:
  "startSource h sctx sc s i w =
     (fst (startSource h sctx sc s i fresh), extend w (snd (startSource h sctx sc s i fresh)))"
  unfolding startSource_def emitWarning_delta
  by (auto split: sum.splits)

lemma finishSource_delta:
  "finishSource h p w =
     (fst (finishSource h p fresh), extend w (snd (finishSource h p fresh)))"
  unfolding finishSource_def fs_readFile_delta emitWarning_delta addDependency_delta
  by (auto split: sum.splits simp: extend_assoc extend_def fresh_def)

text \<open>The two halves make up the whole.\<close>

lemma loadSource_halves:
  "loadSource h sctx sc s i w =
     (case startSource h sctx sc s i w of
        (Settled r, w1) \<Rightarrow> (r, w1)
      | (Reading p, w1) \<Rightarrow> finishSource h p w1)"
  by (auto simp: loadSource_def startSource_def finishSource_def split: sum.splits prod.splits)

lemma startSources_delta:
  "startSources h sctx sc ss i w =
     (map (\<lambda>p. fst (startSource h sctx sc (fst p) (snd p) fresh)) (zip ss [i..<i + length ss]),
      foldl extend w
        (map (\<lambda>p. snd (startSource h sctx sc (fst p) (snd p) fresh)) (zip ss [i..<i + length ss])))"
proof (induction ss arbitrary: i w)
  case Nil
  then show ?case by simp
next
  case (Cons s ss)
  have upt: "[i..<i + length (s # ss)] = i # [Suc i..<Suc i + length ss]"
    using upt_conv_Cons [of i "i + length (s # ss)"] by simp
  show ?case
    unfolding startSources.simps upt
    by (subst startSource_delta) (simp add: Cons.IH)
qed

lemma finishSources_delta:
  "finishSources h ps w = foldl extend w (map (\<lambda>q. snd (finishSource h (snd q) fresh)) ps)"
proof (induction ps arbitrary: w)
  case Nil
  then show ?case by simp
next
  case (Cons q ps)
  obtain i p where q: "q = (i, p)" by (cases q)
  show ?case
    unfolding q finishSources.simps
    by (subst finishSource_delta) (simp add: Cons.IH)
qed

lemma alone_split:
  "warnings (snd (alone h sctx sc (s, i))) =
     warnings (snd (startSource h sctx sc s i fresh))
       @ read_warnings h (fst (startSource h sctx sc s i fresh))"
proof (cases "startSource h sctx sc s i fresh")
  case (Pair st d)
  have d: "extend d x = x\<lparr>cacheable := False, warnings := warnings d @ warnings x\<rparr>" for x
    using Pair by (auto simp: startSource_def emitWarning_def extend_def fresh_def
        split: sum.splits if_splits)
  show ?thesis
    using Pair
    by (cases st)
      (simp_all add: alone_def loadSource_halves read_warnings_def finishSource_delta [of h _ d] d)
qed

lemma pending_sum:
  "(\<Sum>q\<leftarrow>pending k sts. mset (warnings (snd (finishSource h (snd q) fresh))))
     = (\<Sum>st\<leftarrow>sts. mset (read_warnings h st))"
proof (induction sts arbitrary: k)
  case Nil
  then show ?case by simp
next
  case (Cons st sts)
  then show ?case by (cases st) (simp_all add: read_warnings_def)
qed

lemma sum_list_sort_key:
  fixes g :: "'a \<Rightarrow> 'b multiset"
  shows "(\<Sum>x\<leftarrow>sort_key f xs. g x) = (\<Sum>x\<leftarrow>xs. g x)"
proof -
  have "(\<Sum>x\<leftarrow>sort_key f xs. g x) = sum_mset (image_mset g (mset (sort_key f xs)))"
    by (metis mset_map sum_mset_sum_list)
  also have "\<dots> = sum_mset (image_mset g (mset xs))" by simp
  also have "\<dots> = (\<Sum>x\<leftarrow>xs. g x)" by (metis mset_map sum_mset_sum_list)
  finally show ?thesis .
qed

lemma loadSources_warnings:
  assumes "loadSources h sctx sc ss w = (rs, w2)"
  shows "\<exists>ws. warnings w2 = warnings w @ ws
     \<and> mset ws = mset (concat (map (\<lambda>p. warnings (snd (alone h sctx sc p)))
          (zip ss [0..<length ss])))"
proof -
  let ?ps = "zip ss [0..<length ss]"
  let ?sts = "map (\<lambda>p. fst (startSource h sctx sc (fst p) (snd p) fresh)) ?ps"
  let ?A = "concat (map (\<lambda>p. warnings (snd (startSource h sctx sc (fst p) (snd p) fresh))) ?ps)"
  let ?ord = "sort_key (\<lambda>(i, p). finish_time h i) (pending 0 ?sts)"
  let ?B = "concat (map (\<lambda>q. warnings (snd (finishSource h (snd q) fresh))) ?ord)"
  have st: "startSources h sctx sc ss 0 w = (?sts,
      foldl extend w (map (\<lambda>p. snd (startSource h sctx sc (fst p) (snd p) fresh)) ?ps))"
    using startSources_delta [of h sctx sc ss 0 w] by simp
  have w2: "warnings w2 = warnings w @ ?A @ ?B"
    using assms unfolding loadSources_def st
    by (auto simp: finishSources_delta foldl_extend_sel comp_def)
  have "mset ?B = (\<Sum>q\<leftarrow>?ord. mset (warnings (snd (finishSource h (snd q) fresh))))"
    by (simp add: mset_concat comp_def)
  also have "\<dots> = (\<Sum>q\<leftarrow>pending 0 ?sts. mset (warnings (snd (finishSource h (snd q) fresh))))"
    by (rule sum_list_sort_key)
  also have "\<dots> = (\<Sum>st\<leftarrow>?sts. mset (read_warnings h st))"
    by (rule pending_sum)
  finally have B: "mset ?B = (\<Sum>p\<leftarrow>?ps.
      mset (read_warnings h (fst (startSource h sctx sc (fst p) (snd p) fresh))))"
    by (simp add: comp_def)
  have A: "mset ?A = (\<Sum>p\<leftarrow>?ps. mset (warnings (snd (startSource h sctx sc (fst p) (snd p) fresh))))"
    by (simp add: mset_concat comp_def)
  have "mset (concat (map (\<lambda>p. warnings (snd (alone h sctx sc p))) ?ps))
      = (\<Sum>p\<leftarrow>?ps. mset (warnings (snd (startSource h sctx sc (fst p) (snd p) fresh)))
           + mset (read_warnings h (fst (startSource h sctx sc (fst p) (snd p) fresh))))"
  proof -
    have "warnings (snd (alone h sctx sc p)) =
        warnings (snd (startSource h sctx sc (fst p) (snd p) fresh))
          @ read_warnings h (fst (startSource h sctx sc (fst p) (snd p) fresh))" for p
      using alone_split [of h sctx sc "fst p" "snd p"] by simp
    then show ?thesis by (simp add: mset_concat comp_def)
  qed
  also have "\<dots> = mset ?A + mset ?B"
    unfolding A B by (simp add: sum_list_addf)
  finally have "mset (?A @ ?B) = mset (concat (map (\<lambda>p. warnings (snd (alone h sctx sc p))) ?ps))"
    by simp
  with w2 show ?thesis by blast
qed


lemma alone_warnings:
  "length (warnings (snd (alone h sctx sc (s, i)))) = (if source_fails h sctx sc s i then 1 else 0)"
  by (auto simp: alone_def loadSource_def source_fails_def fs_readFile_def emitWarning_def
      addDependency_def fresh_def split: sum.splits)

text \<open>
  Claim C5, amended. The claim says that enrichment returns a map once the raw map has
  been parsed. The cast of the parsed value checks nothing, and on a value without an
  array of sources enrichment throws (\<open>parsed_value_without_sources\<close> below). So: once
  \<open>readSourceMap\<close> has returned a source map, a value with an array of sources,
  \<open>loadSourceMap\<close> returns a map whatever happens to the sources. Its \<open>sourcesContent\<close> has
  one entry for each source, as many as its \<open>sources\<close>; entry \<open>i\<close> of both is what source
  \<open>i\<close> gives when it is handled on its own, so no source depends on the fate of another.
  The warnings added are those of the sources on their own, each once, in an order that
  depends on the order in which the reads complete, and a source on its own emits exactly
  one warning when it fails and none when it does not.
\<close>

theorem enrichment_isolates_failures:
  assumes "readSourceMap h ctx url w = (Inr (Source_map raw, sctx), w1)"
    and "sc = (case sourcesContent raw of None \<Rightarrow> [] | Some c \<Rightarrow> c)"
    and "prefixed = map (\<lambda>s. sourcePrefix raw @ s) (sources raw)"
  shows "\<exists>m cs w2 ws. loadSourceMap h ctx url keep w = (Inr m, w2)
     \<and> sourcesContent m = Some cs
     \<and> length cs = length (sources m)
     \<and> length cs = length (sources raw)
     \<and> (\<forall>i<length cs. cs ! i = content (fst (alone h sctx sc (prefixed ! i, i))))
     \<and> (\<forall>i<length cs. sources m ! i =
          (if keep then sources raw ! i else source (fst (alone h sctx sc (prefixed ! i, i)))))
     \<and> warnings w2 = warnings w1 @ ws
     \<and> mset ws = mset (concat (map (\<lambda>p. warnings (snd (alone h sctx sc p)))
          (zip prefixed [0..<length prefixed])))
     \<and> (\<forall>i<length cs. length (warnings (snd (alone h sctx sc (prefixed ! i, i)))) =
          (if source_fails h sctx sc (prefixed ! i) i then 1 else 0))"
proof -
  let ?ps = "zip prefixed [0..<length prefixed]"
  let ?rs = "map (\<lambda>p. fst (alone h sctx sc p)) ?ps"
  obtain rs w2 where ls: "loadSources h sctx sc prefixed w1 = (rs, w2)"
    by (cases "loadSources h sctx sc prefixed w1")
  have "rs = map (\<lambda>(s, i). fst (loadSource h sctx sc s i w1)) ?ps"
    using ls by (auto simp: loadSources_def split: prod.splits)
  also have "\<dots> = ?rs"
    using loadSource_value [of h sctx sc _ _ w1 fresh] by (auto simp: alone_def)
  finally have rs: "rs = ?rs" .
  let ?m = "raw\<lparr>sourceRoot := None,
      sources := (if \<not> keep then map source ?rs else sources raw),
      sourcesContent := Some (map content ?rs)\<rparr>"
  have run: "loadSourceMap h ctx url keep w = (Inr ?m, w2)"
    using assms ls rs by (simp add: loadSourceMap_def)
  from loadSources_warnings [OF ls] obtain ws where
    ws: "warnings w2 = warnings w1 @ ws"
      "mset ws = mset (concat (map (\<lambda>p. warnings (snd (alone h sctx sc p))) ?ps))"
    by blast
  have len: "length prefixed = length (sources raw)" using assms(3) by simp
  have 1: "sourcesContent ?m = Some (map content ?rs)" by simp
  have 2: "length (map content ?rs) = length (sources ?m)" using len by simp
  have 3: "length (map content ?rs) = length (sources raw)" using len by simp
  have 4: "\<forall>i<length (map content ?rs).
      map content ?rs ! i = content (fst (alone h sctx sc (prefixed ! i, i)))"
    by simp
  have 5: "\<forall>i<length (map content ?rs). sources ?m ! i =
      (if keep then sources raw ! i else source (fst (alone h sctx sc (prefixed ! i, i))))"
    by simp
  have 7: "\<forall>i<length (map content ?rs).
      length (warnings (snd (alone h sctx sc (prefixed ! i, i)))) =
          (if source_fails h sctx sc (prefixed ! i) i then 1 else 0)"
    using alone_warnings by blast
  from run 1 2 3 4 5 ws 7 show ?thesis by blast
qed

theorem enrichment_isolates_failures_witness:
  "readSourceMap sample_host (str ''/app'') (str ''b.map'') fresh =
     (Inr (Source_map map_B, str ''/app''),
      \<lparr>warnings = [], dependencies = [str ''/app/b.map''],
       reads = [(str ''/app/b.map'', True)], cacheable = False\<rparr>)
   \<and> source_fails sample_host (str ''/app'') [] (str ''http://h/x.ts'') 0
   \<and> source_fails sample_host (str ''/app'') [] (str ''gone.ts'') 1
   \<and> \<not> source_fails sample_host (str ''/app'') [] (str ''src/a.ts'') 2
   \<and> (\<exists>m cs w2. loadSourceMap sample_host (str ''/app'') (str ''b.map'') False fresh = (Inr m, w2)
        \<and> sourcesContent m = Some cs \<and> length cs = 3 \<and> length (sources m) = 3
        \<and> cs ! 2 = Text (str ''let a'')
        \<and> length (warnings w2) = 2)"
proof -
  have r: "readSourceMap sample_host (str ''/app'') (str ''b.map'') fresh =
     (Inr (Source_map map_B, str ''/app''),
      \<lparr>warnings = [], dependencies = [str ''/app/b.map''],
       reads = [(str ''/app/b.map'', True)], cacheable = False\<rparr>)"
    by (simp add: pattern_defs loader_defs host_defs)
  have sc: "[] = (case sourcesContent map_B of None \<Rightarrow> [] | Some c \<Rightarrow> c)"
    by (simp add: map_B_def)
  have pre: "[str ''http://h/x.ts'', str ''gone.ts'', str ''src/a.ts'']
      = map (\<lambda>s. sourcePrefix map_B @ s) (sources map_B)"
    by (simp add: map_B_def sourcePrefix_def)
  have f: "source_fails sample_host (str ''/app'') [] (str ''http://h/x.ts'') 0"
    "source_fails sample_host (str ''/app'') [] (str ''gone.ts'') 1"
    "\<not> source_fails sample_host (str ''/app'') [] (str ''src/a.ts'') 2"
    by (simp_all add: source_fails_def pattern_defs loader_defs host_defs)
  have a: "content (fst (alone sample_host (str ''/app'') [] (str ''src/a.ts'', 2)))
      = Text (str ''let a'')"
    by (simp add: alone_def pattern_defs loader_defs host_defs)
  from enrichment_isolates_failures [OF r sc pre, of False]
  obtain m cs w2 ws where
    run: "loadSourceMap sample_host (str ''/app'') (str ''b.map'') False fresh = (Inr m, w2)"
    and cs: "sourcesContent m = Some cs" "length cs = length (sources m)"
      "length cs = length (sources map_B)"
    and c2: "\<forall>i<length cs. cs ! i = content (fst (alone sample_host (str ''/app'') []
        ([str ''http://h/x.ts'', str ''gone.ts'', str ''src/a.ts''] ! i, i)))"
    and ws: "warnings w2 = [] @ ws"
      "mset ws = mset (concat (map (\<lambda>p. warnings (snd (alone sample_host (str ''/app'') [] p)))
        (zip [str ''http://h/x.ts'', str ''gone.ts'', str ''src/a.ts'']
          [0..<length [str ''http://h/x.ts'', str ''gone.ts'', str ''src/a.ts'']])))"
    and one: "\<forall>i<length cs. length (warnings (snd (alone sample_host (str ''/app'') []
        ([str ''http://h/x.ts'', str ''gone.ts'', str ''src/a.ts''] ! i, i)))) =
          (if source_fails sample_host (str ''/app'') []
             ([str ''http://h/x.ts'', str ''gone.ts'', str ''src/a.ts''] ! i) i then 1 else 0)"
    by auto
  have l3: "length cs = 3" using cs(3) by (simp add: map_B_def)
  have upt3: "[0..<3] = [0, 1, 2]" by (simp add: upt_rec)
  have w0: "length (warnings (snd (alone sample_host (str ''/app'') []
        (str ''http://h/x.ts'', 0)))) = 1"
    using one [rule_format, of 0] l3 f by simp
  have w1: "length (warnings (snd (alone sample_host (str ''/app'') [] (str ''gone.ts'', 1)))) = 1"
    using one [rule_format, of 1] l3 f by simp
  have w2': "length (warnings (snd (alone sample_host (str ''/app'') [] (str ''src/a.ts'', 2)))) = 0"
    using one [rule_format, of 2] l3 f by simp
  have "length ws = length (concat (map (\<lambda>p. warnings (snd (alone sample_host (str ''/app'') [] p)))
        (zip [str ''http://h/x.ts'', str ''gone.ts'', str ''src/a.ts'']
          [0..<length [str ''http://h/x.ts'', str ''gone.ts'', str ''src/a.ts'']])))"
    using ws(2) by (rule mset_eq_length)
  also have "\<dots> = 2" using w0 w1 w2' by (simp add: upt3 numeral_2_eq_2)
  finally have wl: "length (warnings w2) = 2" using ws(1) by simp
  have c2': "cs ! 2 = Text (str ''let a'')" using c2 [rule_format, of 2] l3 a by simp
  show ?thesis using r f run cs l3 wl c2' by auto
qed

text \<open>
  Against claim C5 as it was stated: the file \<open>d.map\<close> parses, to a JSON value without
  \<open>sources\<close>. \<open>readSourceMap\<close> returns it, \<open>loadSourceMap\<close> throws the \<open>TypeError\<close>, and
  the loader returns no map.
\<close>

theorem parsed_value_without_sources:
  "readSourceMap sample_host (str ''/app'') (str ''d.map'') fresh =
     (Inr (Not_a_source_map, str ''/app''),
      \<lparr>warnings = [], dependencies = [str ''/app/d.map''],
       reads = [(str ''/app/d.map'', True)], cacheable = False\<rparr>)
   \<and> loadSourceMap sample_host (str ''/app'') (str ''d.map'') False fresh =
     (Inl TypeError_no_sources,
      \<lparr>warnings = [], dependencies = [str ''/app/d.map''],
       reads = [(str ''/app/d.map'', True)], cacheable = False\<rparr>)
   \<and> loader sample_host (str ''/app'') \<lparr>keepRelativeSources = None\<rparr>
      (StringSource (str ''x //# sourceMappingURL=d.map'')) None fresh =
     (\<lparr>out_source = StringSource (str ''x //# sourceMappingURL=d.map''), out_map = None\<rparr>,
      \<lparr>warnings = [TypeError_no_sources], dependencies = [str ''/app/d.map''],
       reads = [(str ''/app/d.map'', True)], cacheable = True\<rparr>)"
  by (simp add: pattern_defs loader_defs host_defs)

text \<open>
  With \<open>keepRelativeSources\<close>, whatever the map: the output \<open>sources\<close> are the input
  \<open>sources\<close> as they were, and \<open>sourceRoot\<close> is removed.
\<close>

lemma keepRelativeSources_sources:
  assumes "readSourceMap h ctx url w = (Inr (Source_map raw, sctx), w1)"
  shows "\<exists>m w2. loadSourceMap h ctx url True w = (Inr m, w2)
     \<and> sources m = sources raw \<and> sourceRoot m = None"
  using assms by (auto simp: loadSourceMap_def split: prod.splits)

text \<open>
  Claim C1. The claim: with \<open>keepRelativeSources\<close> true, the output \<open>sources\<close> are the
  input sources, each prefixed with \<open>sourceRoot + "/"\<close>, and \<open>sourcesContent\<close> is filled
  from the resolved reads. The run below loads \<open>a.map\<close>, whose \<open>sourceRoot\<close> is \<open>src\<close> and
  whose one source is \<open>a.ts\<close>, with the option set. The content is read from
  \<open>/app/src/a.ts\<close>, but the output \<open>sources\<close> are \<open>a.ts\<close>, not the prefixed \<open>src/a.ts\<close>,
  and \<open>sourceRoot\<close> is gone from the output map: the prefixed strings are computed and
  used to find the files, and never stored.
\<close>

theorem keepRelativeSources_drops_sourceRoot:
  "loader sample_host (str ''/app'') \<lparr>keepRelativeSources = Some True\<rparr>
      (StringSource (str ''x //# sourceMappingURL=a.map'')) None fresh =
     (\<lparr>out_source = StringSource (str ''x ''),
       out_map = Some \<lparr>version = 3, file' = Some (str ''a.js''), sourceRoot = None,
         sources = [str ''a.ts''], sourcesContent = Some [Text (str ''let a'')],
         mappings = str ''AAAA''\<rparr>\<rparr>,
      \<lparr>warnings = [], dependencies = [str ''/app/a.map'', str ''/app/src/a.ts''],
       reads = [(str ''/app/a.map'', True), (str ''/app/src/a.ts'', True)],
       cacheable = True\<rparr>)
   \<and> map (\<lambda>s. sourcePrefix map_A @ s) (sources map_A) = [str ''src/a.ts'']"
  by (simp add: pattern_defs loader_defs host_defs)

text \<open>
  Whatever the host: a source whose path does not resolve gets the entry of
  \<open>sourcesContent\<close> as it is, which is \<open>undefined\<close> beyond the end of the array.
\<close>

lemma unresolved_source:
  assumes "resolveAbsolutePath h sctx s = Inl ex"
  shows "loadSource h sctx sc s i w =
     (\<lparr>source = s, content = at_index sc i\<rparr>, emitWarning (Cannot_find_source_file s ex) w)"
    and "length sc \<le> i \<Longrightarrow> content (fst (loadSource h sctx sc s i w)) = Undefined"
  using assms by (simp_all add: loadSource_def at_index_def)

text \<open>
  Claim C2. The claim: a source whose path does not resolve gets one "cannot find source
  file" warning, keeps its string, is not read, and its content is what
  \<open>sourcesContent[i]\<close> held, or \<open>null\<close> when that entry is absent. The run below loads
  \<open>b.map\<close>, which has no \<open>sourcesContent\<close> and whose first source has the scheme \<open>http\<close>.
  That source gets its one warning, keeps its string and is not read, but its content is
  \<open>undefined\<close>, not \<open>null\<close>: the test \<open>sourcesContent[sourceIndex] !== null\<close> lets
  \<open>undefined\<close> through, where the test for a resolved source excludes it too.
\<close>

theorem unresolved_source_content_undefined:
  "loader sample_host (str ''/app'') \<lparr>keepRelativeSources = None\<rparr>
      (StringSource (str ''x //# sourceMappingURL=b.map'')) None fresh =
     (\<lparr>out_source = StringSource (str ''x ''),
       out_map = Some \<lparr>version = 3, file' = Some (str ''b.js''), sourceRoot = None,
         sources = [str ''http://h/x.ts'', str ''/app/gone.ts'', str ''/app/src/a.ts''],
         sourcesContent = Some [Undefined, Null, Text (str ''let a'')],
         mappings = str ''AAAA''\<rparr>\<rparr>,
      \<lparr>warnings =
         [Cannot_find_source_file (str ''http://h/x.ts'')
            (URL_scheme_not_supported (str ''http://h/x.ts'')),
          Cannot_open_source_file (str ''/app/gone.ts'') (HostErr (str ''ENOENT''))],
       dependencies = [str ''/app/b.map'', str ''/app/src/a.ts''],
       reads = [(str ''/app/b.map'', True), (str ''/app/gone.ts'', False),
                (str ''/app/src/a.ts'', True)],
       cacheable = True\<rparr>)"
  by (simp add: pattern_defs loader_defs host_defs)

section \<open>Dependencies\<close>

lemma readSourceMap_delta:
  "readSourceMap h ctx url w =
     (fst (readSourceMap h ctx url fresh),
      extend w (fresh\<lparr>reads := map_read h ctx url,
        dependencies := map fst (filter snd (map_read h ctx url))\<rparr>))"
  by (auto simp: readSourceMap_def map_read_def fs_readFile_def addDependency_def extend_def
      fresh_def Let_def split: option.splits sum.splits)

lemma startSource_quiet:
  "reads (snd (startSource h sctx sc s i fresh)) = []"
  "dependencies (snd (startSource h sctx sc s i fresh)) = []"
  by (auto simp: startSource_def emitWarning_def fresh_def split: sum.splits)

lemma startSources_quiet:
  "reads (snd (startSources h sctx sc ss i w)) = reads w"
  "dependencies (snd (startSources h sctx sc ss i w)) = dependencies w"
  by (simp_all add: startSources_delta foldl_extend_sel comp_def startSource_quiet)

lemma finishSource_effect:
  "reads (snd (finishSource h p fresh)) = [(p, \<not> isl (readFile h p))]"
  "dependencies (snd (finishSource h p fresh)) = map fst (filter snd [(p, \<not> isl (readFile h p))])"
  by (auto simp: finishSource_def fs_readFile_def emitWarning_def addDependency_def fresh_def
      split: sum.splits)

lemma finishSources_effect:
  "reads (finishSources h ps w)
     = reads w @ map (\<lambda>q. (snd q, \<not> isl (readFile h (snd q)))) ps"
  "dependencies (finishSources h ps w)
     = dependencies w @ map fst (filter snd (map (\<lambda>q. (snd q, \<not> isl (readFile h (snd q)))) ps))"
proof -
  show "reads (finishSources h ps w)
     = reads w @ map (\<lambda>q. (snd q, \<not> isl (readFile h (snd q)))) ps"
    by (induction ps arbitrary: w)
      (simp_all add: finishSources_delta foldl_extend_sel comp_def finishSource_effect)
  show "dependencies (finishSources h ps w)
     = dependencies w @ map fst (filter snd (map (\<lambda>q. (snd q, \<not> isl (readFile h (snd q)))) ps))"
    unfolding finishSources_delta foldl_extend_sel
    by (induction ps) (simp_all add: finishSource_effect)
qed

lemma pending_reads:
  "map (\<lambda>q. (snd q, \<not> isl (readFile h (snd q))))
       (pending k (map (\<lambda>p. fst (startSource h sctx sc (fst p) (snd p) fresh))
          (zip ss [k..<k + length ss])))
     = concat (map (source_read h sctx sc) (zip ss [k..<k + length ss]))"
proof (induction ss arbitrary: k)
  case Nil
  then show ?case by simp
next
  case (Cons s ss)
  have upt: "[k..<k + length (s # ss)] = k # [Suc k..<Suc k + length ss]"
    using upt_conv_Cons [of k "k + length (s # ss)"] by simp
  show ?case
    unfolding upt
    using Cons.IH [of "Suc k"]
    by (cases "resolveAbsolutePath h sctx s")
      (auto simp: startSource_def source_read_def)
qed

lemma loadSources_reads:
  assumes "loadSources h sctx sc ss w = (rs, w2)"
  shows "\<exists>xs. reads w2 = reads w @ xs
     \<and> mset xs = mset (concat (map (source_read h sctx sc) (zip ss [0..<length ss])))
     \<and> dependencies w2 = dependencies w @ map fst (filter snd xs)"
proof -
  let ?f = "\<lambda>q :: nat \<times> jsstring. (snd q, \<not> isl (readFile h (snd q)))"
  let ?sts = "map (\<lambda>p. fst (startSource h sctx sc (fst p) (snd p) fresh)) (zip ss [0..<length ss])"
  let ?ord = "sort_key (\<lambda>(i, p). finish_time h i) (pending 0 ?sts)"
  obtain sts w1 where st: "startSources h sctx sc ss 0 w = (sts, w1)"
    by (cases "startSources h sctx sc ss 0 w")
  have sts: "sts = ?sts" using st startSources_delta [of h sctx sc ss 0 w] by simp
  have w1: "reads w1 = reads w" "dependencies w1 = dependencies w"
    using st startSources_quiet [of h sctx sc ss 0 w] by simp_all
  have w2: "w2 = finishSources h ?ord w1"
    using assms st sts by (simp add: loadSources_def)
  have r: "reads w2 = reads w @ map ?f ?ord"
    unfolding w2 finishSources_effect w1 ..
  have d: "dependencies w2 = dependencies w @ map fst (filter snd (map ?f ?ord))"
    unfolding w2 finishSources_effect w1 ..
  have "mset (map ?f ?ord) = mset (map ?f (pending 0 ?sts))" by simp
  also have "map ?f (pending 0 ?sts) = concat (map (source_read h sctx sc) (zip ss [0..<length ss]))"
    using pending_reads [of h 0 sctx sc ss] by simp
  finally have m: "mset (map ?f ?ord)
      = mset (concat (map (source_read h sctx sc) (zip ss [0..<length ss])))" .
  from r m d show ?thesis by blast
qed

lemma loadSourceMap_reads:
  assumes "loadSourceMap h ctx url keep w = (r, w')"
  shows "\<exists>rs. reads w' = reads w @ map_read h ctx url @ rs
     \<and> mset rs = mset (source_reads h ctx url)
     \<and> dependencies w' = dependencies w @ map fst (filter snd (map_read h ctx url @ rs))"
proof -
  let ?D = "fresh\<lparr>reads := map_read h ctx url,
        dependencies := map fst (filter snd (map_read h ctx url))\<rparr>"
  let ?w1 = "extend w ?D"
  have rd: "readSourceMap h ctx url w = (fst (readSourceMap h ctx url fresh), ?w1)"
    by (rule readSourceMap_delta)
  have w1: "reads ?w1 = reads w @ map_read h ctx url"
    "dependencies ?w1 = dependencies w @ map fst (filter snd (map_read h ctx url))"
    by (simp_all add: fresh_def)
  show ?thesis
  proof (cases "loaded_map h ctx url")
    case None
    then have "w' = ?w1"
      using assms rd
      by (auto simp: loadSourceMap_def loaded_map_def split: sum.splits prod.splits parsed.splits)
    moreover have "source_reads h ctx url = []" using None by (simp add: source_reads_def)
    ultimately show ?thesis using w1 by simp
  next
    case (Some a)
    obtain sm sctx where a: "a = (sm, sctx)" by (cases a)
    from Some a have v: "fst (readSourceMap h ctx url fresh) = Inr (Source_map sm, sctx)"
      by (auto simp: loaded_map_def split: sum.splits prod.splits parsed.splits)
    let ?sc = "case sourcesContent sm of None \<Rightarrow> [] | Some c \<Rightarrow> c"
    let ?ss = "map (\<lambda>s. sourcePrefix sm @ s) (sources sm)"
    obtain rs w2 where ls: "loadSources h sctx ?sc ?ss ?w1 = (rs, w2)"
      by (cases "loadSources h sctx ?sc ?ss ?w1")
    have "w' = w2" using assms rd v ls by (simp add: loadSourceMap_def)
    moreover from loadSources_reads [OF ls] obtain xs where
      xs: "reads w2 = reads ?w1 @ xs"
        "mset xs = mset (concat (map (source_read h sctx ?sc) (zip ?ss [0..<length ?ss])))"
        "dependencies w2 = dependencies ?w1 @ map fst (filter snd xs)"
      by blast
    moreover have "source_reads h ctx url
        = concat (map (source_read h sctx ?sc) (zip ?ss [0..<length ?ss]))"
      using Some a by (simp add: source_reads_def)
    ultimately show ?thesis using w1 by auto
  qed
qed

text \<open>
  Claim C9. An invocation that passes its input through reads no file and registers no
  dependency. An invocation with an active directive reads and registers as follows. It
  reads the map file once when the reference is not an inline map and resolves
  (\<open>map_read\<close>), and does not read for an inline map. Then it reads, once each and in the
  order in which the reads complete, the sources of the loaded map whose path resolves
  and whose content is not in the map, and no other source (\<open>source_reads\<close>). The
  dependencies it registers are exactly the files of these reads that were read with
  success, one for each such read and in the order of the reads: none for a read that
  failed, none for inline data, none for a source whose content was in the map.
\<close>

theorem dependencies_are_the_successful_reads:
  "(raw = StringSource [] \<or> rmap \<noteq> None \<or> directive_match (to_String raw) = None \<longrightarrow>
      reads (snd (loader h ctx given raw rmap w)) = reads w
      \<and> dependencies (snd (loader h ctx given raw rmap w)) = dependencies w)
   \<and> (raw \<noteq> StringSource [] \<and> rmap = None \<and> directive_match (to_String raw) = Some m \<longrightarrow>
      (\<exists>rs. reads (snd (loader h ctx given raw rmap w))
              = reads w @ map_read h ctx (group1 m) @ rs
         \<and> mset rs = mset (source_reads h ctx (group1 m))
         \<and> dependencies (snd (loader h ctx given raw rmap w))
              = dependencies w @ map fst (filter snd (map_read h ctx (group1 m) @ rs))))"
proof -
  have 1: "raw = StringSource [] \<or> rmap \<noteq> None \<or> directive_match (to_String raw) = None \<longrightarrow>
      reads (snd (loader h ctx given raw rmap w)) = reads w
      \<and> dependencies (snd (loader h ctx given raw rmap w)) = dependencies w"
    by (auto simp: loader_def)
  have 2: "\<exists>rs. reads (snd (loader h ctx given raw rmap w))
              = reads w @ map_read h ctx (group1 m) @ rs
         \<and> mset rs = mset (source_reads h ctx (group1 m))
         \<and> dependencies (snd (loader h ctx given raw rmap w))
              = dependencies w @ map fst (filter snd (map_read h ctx (group1 m) @ rs))"
    if a: "raw \<noteq> StringSource []" "rmap = None" "directive_match (to_String raw) = Some m"
  proof -
    let ?keep = "keepRelativeSources (assign_options DEFAULT_OPTIONS given) = Some True"
    let ?w0 = "w\<lparr>cacheable := True\<rparr>"
    obtain r w1 where l: "loadSourceMap h ctx (group1 m) ?keep ?w0 = (r, w1)"
      by (cases "loadSourceMap h ctx (group1 m) ?keep ?w0")
    from loadSourceMap_reads [OF l] obtain rs where
      rs: "reads w1 = reads ?w0 @ map_read h ctx (group1 m) @ rs"
        "mset rs = mset (source_reads h ctx (group1 m))"
        "dependencies w1 = dependencies ?w0
           @ map fst (filter snd (map_read h ctx (group1 m) @ rs))"
      by blast
    have "reads (snd (loader h ctx given raw rmap w)) = reads w1
        \<and> dependencies (snd (loader h ctx given raw rmap w)) = dependencies w1"
      using a l by (cases r) (simp_all add: loader_def emitWarning_def)
    with rs show ?thesis by auto
  qed
  from 1 2 show ?thesis by blast
qed

theorem dependencies_are_the_successful_reads_witness:
  "directive_match (to_String (StringSource (str ''x''))) = None
   \<and> reads (snd (loader sample_host (str ''/app'') \<lparr>keepRelativeSources = None\<rparr>
        (StringSource (str ''x'')) None fresh)) = []
   \<and> dependencies (snd (loader sample_host (str ''/app'') \<lparr>keepRelativeSources = None\<rparr>
        (StringSource (str ''x'')) None fresh)) = []
   \<and> directive_match (str ''x //# sourceMappingURL=b.map'')
       = Some \<lparr>index = 2, whole = str ''//# sourceMappingURL=b.map'', group1 = str ''b.map''\<rparr>
   \<and> map_read sample_host (str ''/app'') (str ''b.map'') = [(str ''/app/b.map'', True)]
   \<and> source_reads sample_host (str ''/app'') (str ''b.map'')
       = [(str ''/app/gone.ts'', False), (str ''/app/src/a.ts'', True)]
   \<and> (\<exists>rs. reads (snd (loader sample_host (str ''/app'') \<lparr>keepRelativeSources = None\<rparr>
              (StringSource (str ''x //# sourceMappingURL=b.map'')) None fresh))
            = (str ''/app/b.map'', True) # rs
        \<and> mset rs = {#(str ''/app/gone.ts'', False), (str ''/app/src/a.ts'', True)#}
        \<and> dependencies (snd (loader sample_host (str ''/app'') \<lparr>keepRelativeSources = None\<rparr>
              (StringSource (str ''x //# sourceMappingURL=b.map'')) None fresh))
            = str ''/app/b.map'' # map fst (filter snd rs))
   \<and> directive_match (str ''x //# sourceMappingURL=data:application/json;base64,Qw=='')
       = Some \<lparr>index = 2,
           whole = str ''//# sourceMappingURL=data:application/json;base64,Qw=='',
           group1 = str ''data:application/json;base64,Qw==''\<rparr>
   \<and> map_read sample_host (str ''/app'') (str ''data:application/json;base64,Qw=='') = []
   \<and> source_reads sample_host (str ''/app'') (str ''data:application/json;base64,Qw=='') = []
   \<and> reads (snd (loader sample_host (str ''/app'') \<lparr>keepRelativeSources = None\<rparr>
        (StringSource (str ''x //# sourceMappingURL=data:application/json;base64,Qw==''))
        None fresh)) = []
   \<and> dependencies (snd (loader sample_host (str ''/app'') \<lparr>keepRelativeSources = None\<rparr>
        (StringSource (str ''x //# sourceMappingURL=data:application/json;base64,Qw==''))
        None fresh)) = []"
proof -
  note t = dependencies_are_the_successful_reads [where h = sample_host and ctx = "str ''/app''"
      and given = "\<lparr>keepRelativeSources = None\<rparr>" and rmap = None and w = fresh]
  have f: "reads fresh = []" "dependencies fresh = []" by (simp_all add: fresh_def)
  have n: "StringSource (str ''x'') \<noteq> StringSource []"
    "StringSource (str ''x //# sourceMappingURL=b.map'') \<noteq> StringSource []"
    "StringSource (str ''x //# sourceMappingURL=data:application/json;base64,Qw=='')
       \<noteq> StringSource []"
    by (simp_all add: str_def)
  have a: "directive_match (to_String (StringSource (str ''x''))) = None"
    by (simp add: pattern_defs)
  from t [of "StringSource (str ''x'')"] a
  have ca: "reads (snd (loader sample_host (str ''/app'') \<lparr>keepRelativeSources = None\<rparr>
        (StringSource (str ''x'')) None fresh)) = []
     \<and> dependencies (snd (loader sample_host (str ''/app'') \<lparr>keepRelativeSources = None\<rparr>
        (StringSource (str ''x'')) None fresh)) = []"
    unfolding f by blast
  have b: "directive_match (to_String (StringSource (str ''x //# sourceMappingURL=b.map'')))
       = Some \<lparr>index = 2, whole = str ''//# sourceMappingURL=b.map'', group1 = str ''b.map''\<rparr>"
    by (simp add: pattern_defs)
  have bm: "map_read sample_host (str ''/app'') (str ''b.map'') = [(str ''/app/b.map'', True)]"
    by (simp add: map_read_def pattern_defs loader_defs host_defs)
  have bs: "source_reads sample_host (str ''/app'') (str ''b.map'')
       = [(str ''/app/gone.ts'', False), (str ''/app/src/a.ts'', True)]"
    by (simp add: source_reads_def loaded_map_def source_read_def pattern_defs loader_defs
        host_defs upt_rec)
  from t [of "StringSource (str ''x //# sourceMappingURL=b.map'')"
      "\<lparr>index = 2, whole = str ''//# sourceMappingURL=b.map'', group1 = str ''b.map''\<rparr>"] n(2) b
  have cb: "\<exists>rs. reads (snd (loader sample_host (str ''/app'') \<lparr>keepRelativeSources = None\<rparr>
              (StringSource (str ''x //# sourceMappingURL=b.map'')) None fresh))
            = (str ''/app/b.map'', True) # rs
        \<and> mset rs = {#(str ''/app/gone.ts'', False), (str ''/app/src/a.ts'', True)#}
        \<and> dependencies (snd (loader sample_host (str ''/app'') \<lparr>keepRelativeSources = None\<rparr>
              (StringSource (str ''x //# sourceMappingURL=b.map'')) None fresh))
            = str ''/app/b.map'' # map fst (filter snd rs)"
    unfolding f by (simp add: bm bs)
  have c: "directive_match (to_String (StringSource
        (str ''x //# sourceMappingURL=data:application/json;base64,Qw=='')))
       = Some \<lparr>index = 2,
           whole = str ''//# sourceMappingURL=data:application/json;base64,Qw=='',
           group1 = str ''data:application/json;base64,Qw==''\<rparr>"
    by (simp add: pattern_defs)
  have cm: "map_read sample_host (str ''/app'') (str ''data:application/json;base64,Qw=='') = []"
    by (simp add: map_read_def pattern_defs loader_defs)
  have cs: "source_reads sample_host (str ''/app'') (str ''data:application/json;base64,Qw=='') = []"
    by (simp add: source_reads_def loaded_map_def source_read_def pattern_defs loader_defs
        host_defs)
  from t [of "StringSource (str ''x //# sourceMappingURL=data:application/json;base64,Qw=='')"
      "\<lparr>index = 2,
           whole = str ''//# sourceMappingURL=data:application/json;base64,Qw=='',
           group1 = str ''data:application/json;base64,Qw==''\<rparr>"] n(3) c
  have cc: "reads (snd (loader sample_host (str ''/app'') \<lparr>keepRelativeSources = None\<rparr>
        (StringSource (str ''x //# sourceMappingURL=data:application/json;base64,Qw==''))
        None fresh)) = []
     \<and> dependencies (snd (loader sample_host (str ''/app'') \<lparr>keepRelativeSources = None\<rparr>
        (StringSource (str ''x //# sourceMappingURL=data:application/json;base64,Qw==''))
        None fresh)) = []"
    unfolding f by (simp add: cm cs)
  from a ca b bm bs cb c cm cs cc show ?thesis by simp
qed

section \<open>Several directives in one text\<close>

lemma exec_Some_sound:
  assumes "exec r s = Some m" and "r = regex1 \<or> r = regex2"
  shows "\<exists>pre rest. s = pre @ whole m @ rest \<and> index m = length pre \<and> \<not> occurs marker rest"
proof -
  from exec_from_Some [of r 0 s m] assms(1) obtain pre t where
    s: "s = pre @ t" and m: "match_at r (0 + length pre) t = Some m"
    by (auto simp: exec_def)
  from match_at_Some [OF m] obtain rest where
    r: "(group1 m, rest) \<in> set (ms r ([], t))" "index m = 0 + length pre" "t = whole m @ rest"
    by blast
  from r(1) assms(2) have "\<not> occurs marker rest"
    using regex1_sound [of "(group1 m, rest)" "([], t)"] regex2_sound [of "(group1 m, rest)" "([], t)"]
    by auto
  with s r show ?thesis by auto
qed

text \<open>
  What the lookahead does give: the literal does not occur after the directive that the
  loader takes.
\<close>

lemma directive_match_sound:
  assumes "directive_match s = Some m"
  shows "\<exists>pre rest. s = pre @ whole m @ rest \<and> index m = length pre \<and> \<not> occurs marker rest"
proof (cases "exec regex1 s")
  case None
  with assms have "exec regex2 s = Some m" by (simp add: directive_match_def)
  then show ?thesis by (rule exec_Some_sound) simp
next
  case (Some a)
  with assms have "exec regex1 s = Some m" by (simp add: directive_match_def)
  then show ?thesis by (rule exec_Some_sound) simp
qed

text \<open>
  Claim C3. The claim: among several directives only the last one by position is
  honoured, and an earlier one is never matched. In the text below two block directives
  follow each other with no white space. The pattern matches at index 27, where the last
  directive starts, with the reference \<open>b.map\<close>; but the match that the loader takes
  starts at index 0, at the earlier directive, and its reference runs on through the
  later directive, since the capture stops at white space only and the lookahead is
  tried after it.
\<close>

theorem earlier_directive_matched:
  "directive_match (str ''/*#sourceMappingURL=a.map*//*#sourceMappingURL=b.map*/'') =
     Some \<lparr>index = 0, whole = str ''/*#sourceMappingURL=a.map*//*#sourceMappingURL=b.map*/'',
       group1 = str ''a.map*//*#sourceMappingURL=b.map''\<rparr>
   \<and> match_at regex1 27 (drop 27 (str ''/*#sourceMappingURL=a.map*//*#sourceMappingURL=b.map*/'')) =
     Some \<lparr>index = 27, whole = str ''/*#sourceMappingURL=b.map*/'', group1 = str ''b.map''\<rparr>"
  by (simp add: pattern_defs)

text \<open>
  Claim C10. The claim: when the literal text \<open>sourceMappingURL\<close> occurs after the last
  well-formed directive comment, neither pattern matches, and the loader returns the
  input with no map, as if there were no directive. In the text below the literal stands
  in the code that follows the comment \<open>/*#sourceMappingURL=a.map*/\<close>, and no directive
  follows it. Yet \<open>regex1\<close> matches at index 0: the capture runs on through the literal, up
  to the last \<open>*/\<close>, and the lookahead is tried there. The loader takes the capture for a
  path, tries to read it and emits a warning. It is the defect of claim C3: the capture
  stops at white space only.
\<close>

theorem later_literal_swallowed:
  "directive_match (str ''/*#sourceMappingURL=a.map*/x=sourceMappingURL;/**/'') =
     Some \<lparr>index = 0, whole = str ''/*#sourceMappingURL=a.map*/x=sourceMappingURL;/**/'',
       group1 = str ''a.map*/x=sourceMappingURL;/*''\<rparr>
   \<and> loader sample_host (str ''/app'') \<lparr>keepRelativeSources = None\<rparr>
      (StringSource (str ''/*#sourceMappingURL=a.map*/x=sourceMappingURL;/**/'')) None fresh =
     (\<lparr>out_source = StringSource (str ''/*#sourceMappingURL=a.map*/x=sourceMappingURL;/**/''),
       out_map = None\<rparr>,
      \<lparr>warnings = [Host (HostErr (str ''ENOENT''))], dependencies = [],
       reads = [(str ''/app/a.map*/x=sourceMappingURL;/*'', False)], cacheable = True\<rparr>)"
  by (simp add: pattern_defs loader_defs host_defs)

text \<open>On success the returned text is the input without the first copy of the matched text.\<close>

lemma rewritten_text:
  assumes "raw \<noteq> StringSource []" and "directive_match (to_String raw) = Some m"
    and "loadSourceMap h ctx (group1 m)
           (keepRelativeSources (assign_options DEFAULT_OPTIONS given) = Some True)
           (w\<lparr>cacheable := True\<rparr>) = (Inr sm, w1)"
  shows "loader h ctx given raw None w =
     (\<lparr>out_source = StringSource (replace_first (to_String raw) (whole m)), out_map = Some sm\<rparr>, w1)"
  using assms by (simp add: loader_def)

text \<open>
  Claim C4. The claim: on success the returned text is the input with exactly the matched
  directive cut out. In the text below the same directive stands twice. The match is the
  copy at index 32, but the returned text has lost the copy at index 0 and kept the
  matched one: \<open>replace\<close> with a string removes the first occurrence of the matched text.
  The last conjunct shows the input with the matched stretch cut out.
\<close>

theorem replace_removes_first_copy:
  "directive_match (str ''/*# sourceMappingURL=a.map */ x /*# sourceMappingURL=a.map */'') =
     Some \<lparr>index = 32, whole = str ''/*# sourceMappingURL=a.map */'', group1 = str ''a.map''\<rparr>
   \<and> out_source (fst (loader sample_host (str ''/app'') \<lparr>keepRelativeSources = None\<rparr>
        (StringSource (str ''/*# sourceMappingURL=a.map */ x /*# sourceMappingURL=a.map */''))
        None fresh))
       = StringSource (str '' x /*# sourceMappingURL=a.map */'')
   \<and> take 32 (str ''/*# sourceMappingURL=a.map */ x /*# sourceMappingURL=a.map */'')
        @ drop (32 + 29) (str ''/*# sourceMappingURL=a.map */ x /*# sourceMappingURL=a.map */'')
       = str ''/*# sourceMappingURL=a.map */ x ''"
  by (simp add: pattern_defs loader_defs host_defs)

end
